theory Spec2Isabelle
  imports Complex_Main "HOL-Library.Sublist" "HOL-Library.Multiset"
begin

section \<open>The four-link repeater protocol: data model\<close>

text \<open>
  The exceptions the program can raise (\<open>AssertionError\<close>, \<open>AttributeError\<close>,
  \<open>IndexError\<close> from Python itself), together with the error names of the
  specification's taxonomy.
\<close>

datatype error =
    AssertionError
  | AttributeError
  | IndexError
  | TopologyError
  | InterfaceError
  | NotInitializedError
  | InvalidScheduleError
  | EmptyQueueError
  | DoubleDestroyError

text \<open>
  Modelled from the spec: \<open>Station\<close> (module \<open>quantum_objects\<close>). The protocol
  only compares stations by identity and hands them to \<open>distance\<close>, so a station is
  its identity.
\<close>

type_synonym station = nat

text \<open>The quantum state of a pair is an opaque density matrix.\<close>

type_synonym qstate = "complex list list"

text \<open>
  Modelled from the spec: \<open>Source\<close> (module \<open>quantum_objects\<close>): identity, the
  stations it entangles, and its time-distribution function. The elapsed time of a trial
  is random in the program; here it is a function of the state of the random generator.
  \<open>has_schedule_event\<close> is \<open>callable(getattr(source, "schedule_event", None))\<close>.
\<close>

record source =
  source_id :: nat
  target_stations :: "station list"
  has_schedule_event :: bool
  time_distribution :: "nat \<Rightarrow> real"

type_synonym qubit = nat

text \<open>
  Modelled from the spec: \<open>Pair\<close> (module \<open>quantum_objects\<close>): identity, exactly
  two stations, its qubits, a state and the two resource-cost counters.
\<close>

record pair =
  pair_id :: nat
  pair_stations :: "station \<times> station"
  qubits :: "qubit list"
  state :: qstate
  resource_cost_max :: nat
  resource_cost_add :: nat

text \<open>
  Modelled from the spec: \<open>is_between_stations\<close>, the order-independent membership
  test of a pair's two stations.
\<close>

definition is_between_stations :: "pair \<Rightarrow> station \<Rightarrow> station \<Rightarrow> bool" where
  "is_between_stations p station1 station2 =
     (station1 \<in> {fst (pair_stations p), snd (pair_stations p)} \<and>
      station2 \<in> {fst (pair_stations p), snd (pair_stations p)})"

text \<open>Modelled from the spec: the events of module \<open>events\<close>, each with its scheduled time.\<close>

datatype event =
    SourceEvent real source
  | EntanglementSwappingEvent real "pair list"
  | GenericEvent real

fun event_time :: "event \<Rightarrow> real" where
  "event_time (SourceEvent t s) = t"
| "event_time (EntanglementSwappingEvent t ps) = t"
| "event_time (GenericEvent t) = t"

record event_queue =
  queue :: "event list"
  current_time :: real

text \<open>The objects a world registers, by kind; a source is registered by its identity.\<close>

datatype entity =
    PairE pair
  | QubitE qubit
  | StationE station
  | SourceE nat

text \<open>
  Modelled from the spec: \<open>World\<close> (module \<open>world\<close>): the event queue and the
  mapping from kind name to the live instances of that kind. \<open>random_state\<close> counts the
  draws made from the random generator.
\<close>

record world =
  world_objects :: "string \<rightharpoonup> entity list"
  event_queue :: event_queue
  random_state :: nat

text \<open>
  The protocol object. The attributes that \<open>setup\<close> assigns do not exist before it has
  run: they are \<open>None\<close> until then.
\<close>

record protocol =
  num_memories :: int
  time_list :: "real list"
  state_list :: "qstate list"
  resource_cost_max_list :: "nat list"
  resource_cost_add_list :: "nat list"
  stations :: "station list"
  sources :: "source list"
  station_ground_left :: "station option"
  sat_left :: "station option"
  sat_central :: "station option"
  sat_right :: "station option"
  station_ground_right :: "station option"
  source_link1 :: "source option"
  source_link2 :: "source option"
  source_link3 :: "source option"
  source_link4 :: "source option"
  link_stations :: "(station \<times> station) list option"

section \<open>Helpers for fallible code\<close>

definition ebind :: "error + 'a \<Rightarrow> ('a \<Rightarrow> error + 'b) \<Rightarrow> error + 'b" where
  "ebind m f = (case m of Inl e \<Rightarrow> Inl e | Inr x \<Rightarrow> f x)"

text \<open>Reading an attribute that was never assigned raises \<open>AttributeError\<close>.\<close>

fun attr :: "'a option \<Rightarrow> error + 'a" where
  "attr None = Inl AttributeError"
| "attr (Some x) = Inr x"

text \<open>\<open>xs[i]\<close> for a non-negative index: \<open>IndexError\<close> out of range.\<close>

definition index :: "'a list \<Rightarrow> nat \<Rightarrow> error + 'a" where
  "index xs i = (if i < length xs then Inr (xs ! i) else Inl IndexError)"

text \<open>A list comprehension over a fallible function stops at the first exception.\<close>

fun map_err :: "('a \<Rightarrow> error + 'b) \<Rightarrow> 'a list \<Rightarrow> error + 'b list" where
  "map_err f [] = Inr []"
| "map_err f (x # xs) = ebind (f x) (\<lambda>y. ebind (map_err f xs) (\<lambda>ys. Inr (y # ys)))"

section \<open>The world's operations\<close>

text \<open>
  Modelled from the spec: \<open>add_event\<close> inserts by scheduled time, after the events of
  the same time, and fails with \<open>InvalidScheduleError\<close> for a time before the current
  time.
\<close>

fun insert_event :: "event \<Rightarrow> event list \<Rightarrow> event list" where
  "insert_event e [] = [e]"
| "insert_event e (x # xs) =
     (if event_time e < event_time x then e # x # xs else x # insert_event e xs)"

definition add_event :: "event \<Rightarrow> world \<Rightarrow> error + world" where
  "add_event e w =
     (if event_time e < current_time (event_queue w) then Inl InvalidScheduleError
      else Inr (w\<lparr>event_queue :=
                   (event_queue w)\<lparr>queue := insert_event e (queue (event_queue w))\<rparr>\<rparr>))"

text \<open>
  Modelled from the spec: \<open>Source.schedule_event\<close> draws the elapsed time of a trial
  and enqueues a \<open>SourceEvent\<close> at the current time plus that elapsed time. Calling it on
  an object without the method raises \<open>AttributeError\<close>.
\<close>

definition schedule_event :: "source \<Rightarrow> world \<Rightarrow> error + world" where
  "schedule_event src w =
     (if \<not> has_schedule_event src then Inl AttributeError
      else add_event
             (SourceEvent (current_time (event_queue w) + time_distribution src (random_state w)) src)
             (w\<lparr>random_state := Suc (random_state w)\<rparr>))"

text \<open>
  Modelled from the spec: \<open>Pair.destroy\<close> and \<open>Qubit.destroy\<close> deregister the object
  from the world and fail with \<open>DoubleDestroyError\<close> when it is not registered any more.
\<close>

definition destroy :: "string \<Rightarrow> entity \<Rightarrow> world \<Rightarrow> error + world" where
  "destroy kind ent w =
     (case world_objects w kind of
        None \<Rightarrow> Inl DoubleDestroyError
      | Some ents \<Rightarrow>
          if ent \<in> set ents
          then Inr (w\<lparr>world_objects := (world_objects w)(kind \<mapsto> remove1 ent ents)\<rparr>)
          else Inl DoubleDestroyError)"

section \<open>FourlinkProtocol\<close>

definition init :: "int \<Rightarrow> station list \<Rightarrow> source list \<Rightarrow> protocol" where
  "init n sts srcs =
     \<lparr> num_memories = n, time_list = [], state_list = [],
       resource_cost_max_list = [], resource_cost_add_list = [],
       stations = sts, sources = srcs,
       station_ground_left = None, sat_left = None, sat_central = None,
       sat_right = None, station_ground_right = None,
       source_link1 = None, source_link2 = None, source_link3 = None,
       source_link4 = None, link_stations = None \<rparr>"

text \<open>
  The method \<open>setup\<close>: the three assertions in the order of the source. A failed assertion is
  \<open>AssertionError\<close>; the attributes assigned before it are lost with the result.
\<close>

definition setup_protocol :: "protocol \<Rightarrow> error + protocol" where
  "setup_protocol p =
     (if length (stations p) \<noteq> 5 then Inl AssertionError
      else if length (sources p) \<noteq> 4 then Inl AssertionError
      else if \<not> list_all has_schedule_event (sources p) then Inl AssertionError
      else Inr (p\<lparr> station_ground_left := Some (stations p ! 0),
                   sat_left := Some (stations p ! 1),
                   sat_central := Some (stations p ! 2),
                   sat_right := Some (stations p ! 3),
                   station_ground_right := Some (stations p ! 4),
                   source_link1 := Some (sources p ! 0),
                   source_link2 := Some (sources p ! 1),
                   source_link3 := Some (sources p ! 2),
                   source_link4 := Some (sources p ! 3),
                   link_stations :=
                     Some (map (\<lambda>i. (stations p ! i, stations p ! (i + 1))) [0..<4]) \<rparr>))"

text \<open>
  \<open>_get_pairs_between_stations\<close>: a missing \<open>"Pair"\<close> key is caught and read as the
  empty list. The filter calls \<open>is_between_stations\<close> on every registered object, which
  raises \<open>AttributeError\<close> on an object that is not a pair.
\<close>

fun filter_pairs :: "(pair \<Rightarrow> bool) \<Rightarrow> entity list \<Rightarrow> error + pair list" where
  "filter_pairs f [] = Inr []"
| "filter_pairs f (PairE p # es) =
     ebind (filter_pairs f es) (\<lambda>ps. Inr (if f p then p # ps else ps))"
| "filter_pairs f (e # es) = Inl AttributeError"

definition get_pairs_between_stations :: "world \<Rightarrow> station \<Rightarrow> station \<Rightarrow> error + pair list" where
  "get_pairs_between_stations w station1 station2 =
     (let pairs = (case world_objects w ''Pair'' of Some ps \<Rightarrow> ps | None \<Rightarrow> [])
      in filter_pairs (\<lambda>pair. is_between_stations pair station1 station2) pairs)"

fun is_scheduled_for :: "station \<Rightarrow> station \<Rightarrow> event \<Rightarrow> bool" where
  "is_scheduled_for station1 station2 (SourceEvent t src) =
     (station1 \<in> set (target_stations src) \<and> station2 \<in> set (target_stations src))"
| "is_scheduled_for station1 station2 ev = False"

definition get_pairs_scheduled :: "world \<Rightarrow> station \<Rightarrow> station \<Rightarrow> event list" where
  "get_pairs_scheduled w station1 station2 =
     filter (is_scheduled_for station1 station2) (queue (event_queue w))"

text \<open>
  \<open>_eval_pair\<close>, with \<open>distance\<close> and the speed of light \<open>C\<close> as parameters (they
  live in modules outside the protocol). Times and distances are real numbers here, so the
  rounding of floating-point arithmetic is left out; \<open>C\<close> is a positive constant in the
  program, and the properties that depend on the division assume \<open>0 < C\<close>.
\<close>

definition eval_pair ::
    "(station \<Rightarrow> station \<Rightarrow> real) \<Rightarrow> real \<Rightarrow> protocol \<Rightarrow> world \<Rightarrow> pair \<Rightarrow> error + protocol" where
  "eval_pair distance C p w long_range_pair =
     ebind (attr (sat_central p)) (\<lambda>sc.
     ebind (attr (station_ground_left p)) (\<lambda>gl.
     ebind (attr (station_ground_right p)) (\<lambda>gr.
       let comm_distance = max (distance sc gl) (distance sc gr);
           comm_time = comm_distance / C
       in Inr (p\<lparr> time_list := time_list p @ [current_time (event_queue w) + comm_time],
                  state_list := state_list p @ [state long_range_pair],
                  resource_cost_max_list :=
                    resource_cost_max_list p @ [resource_cost_max long_range_pair],
                  resource_cost_add_list :=
                    resource_cost_add_list p @ [resource_cost_add long_range_pair] \<rparr>))))"

text \<open>Step 1 of \<open>check\<close>: \<open>for _ in range(k): source.schedule_event()\<close>.\<close>

fun schedule_events :: "nat \<Rightarrow> source \<Rightarrow> world \<Rightarrow> error + world" where
  "schedule_events 0 src w = Inr w"
| "schedule_events (Suc k) src w = ebind (schedule_event src w) (schedule_events k src)"

fun replenish :: "int \<Rightarrow> (nat \<times> source) list \<Rightarrow> world \<Rightarrow> error + world" where
  "replenish n [] w = Inr w"
| "replenish n ((link_used, src) # rest) w =
     (if int link_used < n
      then ebind (schedule_events (nat (n - int link_used)) src w) (replenish n rest)
      else replenish n rest w)"

text \<open>
  Step 2 of \<open>check\<close>: the loop over \<open>zip(left, right)\<close>, which the source writes three
  times. \<open>next(filter(...))\<close> finds the first pending swap of both pairs, and
  \<open>StopIteration\<close> means there is none.
\<close>

fun references :: "pair \<Rightarrow> pair \<Rightarrow> event \<Rightarrow> bool" where
  "references left_pair right_pair (EntanglementSwappingEvent t ps) =
     (left_pair \<in> set ps \<and> right_pair \<in> set ps)"
| "references left_pair right_pair ev = False"

fun schedule_swaps :: "(pair \<times> pair) list \<Rightarrow> world \<Rightarrow> error + world" where
  "schedule_swaps [] w = Inr w"
| "schedule_swaps ((left_pair, right_pair) # rest) w =
     (case find (references left_pair right_pair) (queue (event_queue w)) of
        Some ev \<Rightarrow> schedule_swaps rest w
      | None \<Rightarrow>
          ebind (add_event (EntanglementSwappingEvent (current_time (event_queue w))
                              [left_pair, right_pair]) w)
                (schedule_swaps rest))"

text \<open>
  The guard \<open>num_pairs_links[i] != 0 and num_pairs_links[j] != 0\<close> (the second index is
  read only when the first test holds) and the loop under it.
\<close>

definition swap_links ::
    "nat list \<Rightarrow> pair list list \<Rightarrow> nat \<Rightarrow> nat \<Rightarrow> world \<Rightarrow> error + world" where
  "swap_links num_pairs_links pairs_links i j w =
     ebind (index num_pairs_links i) (\<lambda>ni.
       if ni \<noteq> 0
       then ebind (index num_pairs_links j) (\<lambda>nj.
              if nj \<noteq> 0
              then ebind (index pairs_links i) (\<lambda>pi.
                   ebind (index pairs_links j) (\<lambda>pj. schedule_swaps (zip pi pj) w))
              else Inr w)
       else Inr w)"

text \<open>Step 3 of \<open>check\<close>: evaluate and destroy every long-range pair.\<close>

fun eval_loop ::
    "(station \<Rightarrow> station \<Rightarrow> real) \<Rightarrow> real \<Rightarrow> pair list \<Rightarrow> protocol \<Rightarrow> world
      \<Rightarrow> error + protocol \<times> world" where
  "eval_loop distance C [] p w = Inr (p, w)"
| "eval_loop distance C (long_range_pair # rest) p w =
     ebind (eval_pair distance C p w long_range_pair) (\<lambda>p1.
     ebind (index (qubits long_range_pair) 0) (\<lambda>q0.
     ebind (destroy ''Qubit'' (QubitE q0) w) (\<lambda>w1.
     ebind (index (qubits long_range_pair) 1) (\<lambda>q1.
     ebind (destroy ''Qubit'' (QubitE q1) w1) (\<lambda>w2.
     ebind (destroy ''Pair'' (PairE long_range_pair) w2) (\<lambda>w3.
       eval_loop distance C rest p1 w3))))))"

text \<open>
  One pass through the body of \<open>check\<close>, up to the recursive call. The result says
  whether \<open>long_range_pairs\<close> was non-empty, that is whether \<open>check\<close> calls itself.
\<close>

definition check_pass ::
    "(station \<Rightarrow> station \<Rightarrow> real) \<Rightarrow> real \<Rightarrow> protocol \<Rightarrow> world
      \<Rightarrow> error + bool \<times> protocol \<times> world" where
  "check_pass distance C p w =
     ebind (attr (link_stations p)) (\<lambda>ls.
     ebind (map_err (\<lambda>(s1, s2). get_pairs_between_stations w s1 s2) ls) (\<lambda>pairs_links.
       let num_pairs_links = map length pairs_links;
           num_pairs_scheduled_links =
             map (\<lambda>(s1, s2). length (get_pairs_scheduled w s1 s2)) ls;
           links_used = map (\<lambda>(a, b). a + b) (zip num_pairs_links num_pairs_scheduled_links)
       in
     ebind (replenish (num_memories p) (zip links_used (sources p)) w) (\<lambda>w1.
     ebind (swap_links num_pairs_links pairs_links 0 1 w1) (\<lambda>w2.
     ebind (swap_links num_pairs_links pairs_links 2 3 w2) (\<lambda>w3.
     ebind (attr (station_ground_left p)) (\<lambda>gl.
     ebind (attr (sat_central p)) (\<lambda>sc.
     ebind (get_pairs_between_stations w3 gl sc) (\<lambda>left_pairs.
     ebind (attr (station_ground_right p)) (\<lambda>gr.
     ebind (get_pairs_between_stations w3 sc gr) (\<lambda>right_pairs.
     ebind (if length left_pairs \<noteq> 0 \<and> length right_pairs \<noteq> 0
            then schedule_swaps (zip left_pairs right_pairs) w3 else Inr w3) (\<lambda>w4.
     ebind (get_pairs_between_stations w4 gl gr) (\<lambda>long_range_pairs.
       if long_range_pairs \<noteq> []
       then ebind (eval_loop distance C long_range_pairs p w4) (\<lambda>(p', w5). Inr (True, p', w5))
       else Inr (False, p, w4)))))))))))))"

text \<open>
  \<open>check\<close>: the pass, and the call of itself after a pass that evaluated long-range
  pairs. \<open>None\<close> stands for a recursion that never ends.
\<close>

partial_function (option) check ::
    "(station \<Rightarrow> station \<Rightarrow> real) \<Rightarrow> real \<Rightarrow> protocol \<Rightarrow> world
      \<Rightarrow> (error + protocol \<times> world) option" where
  "check distance C p w =
     (case check_pass distance C p w of
        Inl e \<Rightarrow> Some (Inl e)
      | Inr (again, p', w') \<Rightarrow> if again then check distance C p' w' else Some (Inr (p', w')))"

declare check.simps [code]

section \<open>Vocabulary of the properties\<close>

text \<open>The world after some events have been added to its queue, one after the other.\<close>

definition enqueue :: "event list \<Rightarrow> nat \<Rightarrow> world \<Rightarrow> world" where
  "enqueue evs r w =
     w\<lparr>event_queue := (event_queue w)\<lparr>queue := fold insert_event evs (queue (event_queue w))\<rparr>,
       random_state := r\<rparr>"

fun is_swap :: "event \<Rightarrow> bool" where
  "is_swap (EntanglementSwappingEvent t ps) = True"
| "is_swap ev = False"

fun is_source_event :: "event \<Rightarrow> bool" where
  "is_source_event (SourceEvent t src) = True"
| "is_source_event ev = False"

definition pending_swaps :: "world \<Rightarrow> event list" where
  "pending_swaps w = filter is_swap (queue (event_queue w))"

definition pending_source_events :: "world \<Rightarrow> event list" where
  "pending_source_events w = filter is_source_event (queue (event_queue w))"

text \<open>The objects registered under a kind; none when the kind has no entry.\<close>

definition registered :: "world \<Rightarrow> string \<Rightarrow> entity list" where
  "registered w kind = (case world_objects w kind of Some es \<Rightarrow> es | None \<Rightarrow> [])"

text \<open>The number of pairs between two stations, and what \<open>check\<close> calls \<open>link_used\<close>.\<close>

definition num_pairs_between :: "world \<Rightarrow> station \<Rightarrow> station \<Rightarrow> nat" where
  "num_pairs_between w a b =
     (case get_pairs_between_stations w a b of Inr ps \<Rightarrow> length ps | Inl e \<Rightarrow> 0)"

definition link_used :: "world \<Rightarrow> station \<times> station \<Rightarrow> nat" where
  "link_used w l =
     num_pairs_between w (fst l) (snd l) + length (get_pairs_scheduled w (fst l) (snd l))"

text \<open>The pairs of a list that lie between two stations.\<close>

definition pairs_between :: "pair list \<Rightarrow> station \<Rightarrow> station \<Rightarrow> pair list" where
  "pairs_between qs a b = filter (\<lambda>q. is_between_stations q a b) qs"

text \<open>Every combination of a list has a pending swap that references both of its pairs.\<close>

definition swaps_covered :: "(pair \<times> pair) list \<Rightarrow> world \<Rightarrow> bool" where
  "swaps_covered zs w \<longleftrightarrow>
     (\<forall>(l, r) \<in> set zs. \<exists>e \<in> set (queue (event_queue w)). references l r e)"

text \<open>The number of pairs between two stations after a call of \<open>check\<close> that returns.\<close>

definition pairs_after ::
    "(station \<Rightarrow> station \<Rightarrow> real) \<Rightarrow> real \<Rightarrow> protocol \<Rightarrow> world \<Rightarrow> station \<Rightarrow> station
      \<Rightarrow> nat option" where
  "pairs_after distance C p w a b =
     (case check distance C p w of
        Some (Inr (p', w')) \<Rightarrow> Some (num_pairs_between w' a b)
      | _ \<Rightarrow> None)"

text \<open>The number of pending swap events after a call of \<open>check\<close> that returns.\<close>

definition swaps_after ::
    "(station \<Rightarrow> station \<Rightarrow> real) \<Rightarrow> real \<Rightarrow> protocol \<Rightarrow> world \<Rightarrow> nat option" where
  "swaps_after distance C p w =
     (case check distance C p w of
        Some (Inr (p', w')) \<Rightarrow> Some (length (pending_swaps w'))
      | _ \<Rightarrow> None)"

text \<open>The sources that step 1 of \<open>check\<close> calls, one entry for each call.\<close>

definition planned :: "int \<Rightarrow> (nat \<times> source) list \<Rightarrow> source list" where
  "planned n jobs = concat (map (\<lambda>(link_used, src). replicate (nat (n - int link_used)) src) jobs)"

text \<open>
  The reference scenario: stations \<open>0\<close> to \<open>4\<close> in a line, the source of link
  \<open>i\<close> between stations \<open>i\<close> and \<open>i + 1\<close>, every trial taking one time unit.
\<close>

definition chain_source :: "nat \<Rightarrow> source" where
  "chain_source i =
     \<lparr> source_id = i, target_stations = [i, i + 1], has_schedule_event = True,
       time_distribution = (\<lambda>k. 1) \<rparr>"

definition chain_protocol :: "int \<Rightarrow> protocol" where
  "chain_protocol n =
     init n [0, 1, 2, 3, 4] [chain_source 0, chain_source 1, chain_source 2, chain_source 3]"

definition empty_world :: world where
  "empty_world =
     \<lparr> world_objects = Map.empty, event_queue = \<lparr> queue = [], current_time = 0 \<rparr>,
       random_state = 0 \<rparr>"

text \<open>The chain protocol after its \<open>setup\<close> has run.\<close>

definition ready_protocol :: "int \<Rightarrow> protocol" where
  "ready_protocol n =
     (case setup_protocol (chain_protocol n) of Inr p \<Rightarrow> p | Inl e \<Rightarrow> chain_protocol n)"

text \<open>
  A pair with identity \<open>i\<close> between two stations, with its own two qubits, and the world
  that holds given pairs and their qubits at time 0 with an empty queue.
\<close>

definition chain_pair :: "nat \<Rightarrow> station \<Rightarrow> station \<Rightarrow> pair" where
  "chain_pair i a b =
     \<lparr> pair_id = i, pair_stations = (a, b), qubits = [2 * i, 2 * i + 1], state = [[1]],
       resource_cost_max = 1, resource_cost_add = 1 \<rparr>"

definition world_with :: "pair list \<Rightarrow> world" where
  "world_with ps =
     \<lparr> world_objects =
         [''Pair'' \<mapsto> map PairE ps, ''Qubit'' \<mapsto> map QubitE (concat (map qubits ps))],
       event_queue = \<lparr> queue = [], current_time = 0 \<rparr>,
       random_state = 0 \<rparr>"

text \<open>The distance of two stations of the chain, which lie one unit apart.\<close>

definition chain_distance :: "station \<Rightarrow> station \<Rightarrow> real" where
  "chain_distance a b = \<bar>real a - real b\<bar>"

text \<open>
  A sequence of calls of \<open>check\<close> on one protocol object. Between two calls the driver
  changes the world as it likes: the list gives the world that each call finds.
\<close>

fun check_seq ::
    "(station \<Rightarrow> station \<Rightarrow> real) \<Rightarrow> real \<Rightarrow> protocol \<Rightarrow> world list
      \<Rightarrow> (error + protocol) option" where
  "check_seq distance C p [] = Some (Inr p)"
| "check_seq distance C p (w # ws) =
     (case check distance C p w of
        None \<Rightarrow> None
      | Some (Inl e) \<Rightarrow> Some (Inl e)
      | Some (Inr (p', w')) \<Rightarrow> check_seq distance C p' ws)"

definition logs_aligned :: "protocol \<Rightarrow> bool" where
  "logs_aligned p \<longleftrightarrow>
     length (time_list p) = length (state_list p) \<and>
     length (state_list p) = length (resource_cost_max_list p) \<and>
     length (resource_cost_max_list p) = length (resource_cost_add_list p)"

section \<open>Basic facts\<close>

lemma ebind_Inl [simp]: "ebind (Inl e) f = Inl e"
  by (simp add: ebind_def)

lemma ebind_Inr [simp]: "ebind (Inr x) f = f x"
  by (simp add: ebind_def)

lemma ebind_eq_Inr: "ebind m f = Inr y \<longleftrightarrow> (\<exists>x. m = Inr x \<and> f x = Inr y)"
  by (cases m) simp_all

lemma attr_eq_Inr: "attr x = Inr y \<longleftrightarrow> x = Some y"
  by (cases x) simp_all

section \<open>The event queue and step 1\<close>

lemma set_insert_event: "set (insert_event e xs) = insert e (set xs)"
  by (induction xs) auto

lemma filter_insert_event_other: "\<not> P e \<Longrightarrow> filter P (insert_event e xs) = filter P xs"
  by (induction xs) auto

lemma length_filter_insert_event:
  "length (filter P (insert_event e xs)) = length (filter P xs) + (if P e then 1 else 0)"
  by (induction xs) auto

lemma set_fold_insert_event: "set (fold insert_event evs q) = set evs \<union> set q"
  by (induction evs arbitrary: q) (auto simp: set_insert_event)

lemma filter_fold_insert_event_other:
  "\<forall>e \<in> set evs. \<not> P e \<Longrightarrow> filter P (fold insert_event evs q) = filter P q"
  by (induction evs arbitrary: q) (auto simp: filter_insert_event_other)

lemma length_filter_fold_insert_event:
  "length (filter P (fold insert_event evs q)) = length (filter P q) + length (filter P evs)"
  by (induction evs arbitrary: q) (auto simp: length_filter_insert_event)

lemma enqueue_sel [simp]:
  "world_objects (enqueue evs r w) = world_objects w"
  "random_state (enqueue evs r w) = r"
  "current_time (event_queue (enqueue evs r w)) = current_time (event_queue w)"
  "queue (event_queue (enqueue evs r w)) = fold insert_event evs (queue (event_queue w))"
  by (simp_all add: enqueue_def)

lemma enqueue_Nil [simp]: "enqueue [] (random_state w) w = w"
  by (simp add: enqueue_def)

lemma enqueue_enqueue [simp]: "enqueue evs2 r2 (enqueue evs1 r1 w) = enqueue (evs1 @ evs2) r2 w"
  by (simp add: enqueue_def)

lemma add_event_eq:
  "add_event e w =
     (if event_time e < current_time (event_queue w) then Inl InvalidScheduleError
      else Inr (enqueue [e] (random_state w) w))"
  by (simp add: add_event_def enqueue_def)

lemma schedule_event_Inr:
  assumes "schedule_event src w = Inr w'"
  shows "\<exists>t. w' = enqueue [SourceEvent t src] (Suc (random_state w)) w"
  using assms by (auto simp: schedule_event_def add_event_eq enqueue_def split: if_splits)

lemma schedule_events_Inr:
  "schedule_events k src w = Inr w' \<Longrightarrow>
     \<exists>ts r. length ts = k \<and> w' = enqueue (map (\<lambda>t. SourceEvent t src) ts) r w"
proof (induction k arbitrary: w)
  case 0
  then show ?case by (auto intro: exI [of _ "[]"] exI [of _ "random_state w"])
next
  case (Suc k)
  from Suc.prems obtain w1 where a: "schedule_event src w = Inr w1"
    and b: "schedule_events k src w1 = Inr w'"
    by (auto simp: ebind_eq_Inr)
  from schedule_event_Inr [OF a] obtain t where w1: "w1 = enqueue [SourceEvent t src] (Suc (random_state w)) w" ..
  from Suc.IH [OF b] obtain ts r where "length ts = k" "w' = enqueue (map (\<lambda>t. SourceEvent t src) ts) r w1"
    by blast
  with w1 have "length (t # ts) = Suc k \<and> w' = enqueue (map (\<lambda>t. SourceEvent t src) (t # ts)) r w"
    by simp
  then show ?case by blast
qed

lemma replenish_Inr:
  "replenish n jobs w = Inr w' \<Longrightarrow>
     \<exists>ts r. length ts = length (planned n jobs) \<and>
            w' = enqueue (map (\<lambda>(t, src). SourceEvent t src) (zip ts (planned n jobs))) r w"
proof (induction jobs arbitrary: w)
  case Nil
  then show ?case
    by (auto simp: planned_def intro: exI [of _ "[]"] exI [of _ "random_state w"])
next
  case (Cons job jobs)
  obtain u src where job: "job = (u, src)" by (cases job)
  show ?case
  proof (cases "int u < n")
    case True
    with Cons.prems job obtain w1 where a: "schedule_events (nat (n - int u)) src w = Inr w1"
      and b: "replenish n jobs w1 = Inr w'"
      by (auto simp: ebind_eq_Inr)
    from schedule_events_Inr [OF a] obtain ts1 r1 where
      ts1: "length ts1 = nat (n - int u)" "w1 = enqueue (map (\<lambda>t. SourceEvent t src) ts1) r1 w"
      by blast
    from Cons.IH [OF b] obtain ts2 r2 where
      ts2: "length ts2 = length (planned n jobs)"
        "w' = enqueue (map (\<lambda>(t, src). SourceEvent t src) (zip ts2 (planned n jobs))) r2 w1"
      by blast
    have pl: "planned n (job # jobs) = replicate (nat (n - int u)) src @ planned n jobs"
      by (simp add: planned_def job)
    have m: "map (\<lambda>t. SourceEvent t src) ts1 =
             map (\<lambda>(t, src). SourceEvent t src) (zip ts1 (replicate (nat (n - int u)) src))"
      using ts1(1) by (simp add: zip_replicate2 comp_def)
    have "length (ts1 @ ts2) = length (planned n (job # jobs)) \<and>
          w' = enqueue (map (\<lambda>(t, src). SourceEvent t src) (zip (ts1 @ ts2) (planned n (job # jobs)))) r2 w"
      using ts1 ts2 by (simp add: pl m)
    then show ?thesis by blast
  next
    case False
    then have "planned n (job # jobs) = planned n jobs"
      by (simp add: planned_def job)
    with Cons False job show ?thesis by simp
  qed
qed

section \<open>Pairs, swaps and destruction\<close>

lemma registered_enqueue [simp]: "registered (enqueue evs r w) k = registered w k"
  by (simp add: registered_def)

lemma get_pairs_registered:
  "get_pairs_between_stations w a b =
     filter_pairs (\<lambda>q. is_between_stations q a b) (registered w ''Pair'')"
  by (simp add: get_pairs_between_stations_def registered_def)

lemma filter_pairs_map [simp]: "filter_pairs f (map PairE qs) = Inr (filter f qs)"
  by (induction qs) auto

lemma filter_pairs_Inr:
  "filter_pairs f es = Inr ps \<Longrightarrow> \<exists>qs. es = map PairE qs \<and> ps = filter f qs"
proof (induction f es arbitrary: ps rule: filter_pairs.induct)
  case (2 f p es)
  then obtain ps' where a: "filter_pairs f es = Inr ps'"
    and b: "ps = (if f p then p # ps' else ps')"
    by (auto simp: ebind_eq_Inr)
  from "2.IH" [OF a] obtain qs where "es = map PairE qs" "ps' = filter f qs"
    by blast
  with b have "PairE p # es = map PairE (p # qs) \<and> ps = filter f (p # qs)"
    by simp
  then show ?case by (rule exI [of _ "p # qs"])
qed simp_all

lemma schedule_swaps_total:
  "\<exists>evs. schedule_swaps zs w = Inr (enqueue evs (random_state w) w) \<and>
     (\<forall>e \<in> set evs. \<exists>l r. (l, r) \<in> set zs \<and>
         e = EntanglementSwappingEvent (current_time (event_queue w)) [l, r]) \<and>
     (\<forall>(l, r) \<in> set zs. \<exists>e \<in> set (queue (event_queue w)) \<union> set evs. references l r e) \<and>
     ((\<forall>(l, r) \<in> set zs. \<exists>e \<in> set (queue (event_queue w)). references l r e) \<longrightarrow> evs = [])"
proof (induction zs arbitrary: w)
  case Nil
  show ?case by (auto intro: exI [of _ "[]"])
next
  case (Cons z zs)
  obtain l r where z: "z = (l, r)" by (cases z)
  show ?case
  proof (cases "find (references l r) (queue (event_queue w))")
    case (Some ev)
    then have ex: "\<exists>e \<in> set (queue (event_queue w)). references l r e"
      by (metis find_Some_iff nth_mem)
    from Cons.IH [of w] obtain evs where
      evs: "schedule_swaps zs w = Inr (enqueue evs (random_state w) w)"
        "\<forall>e \<in> set evs. \<exists>l r. (l, r) \<in> set zs \<and>
            e = EntanglementSwappingEvent (current_time (event_queue w)) [l, r]"
        "\<forall>(l, r) \<in> set zs. \<exists>e \<in> set (queue (event_queue w)) \<union> set evs. references l r e"
        "(\<forall>(l, r) \<in> set zs. \<exists>e \<in> set (queue (event_queue w)). references l r e) \<longrightarrow> evs = []"
      by blast
    have "schedule_swaps (z # zs) w = Inr (enqueue evs (random_state w) w)"
      using Some evs(1) by (simp add: z)
    moreover have "\<forall>e \<in> set evs. \<exists>l r. (l, r) \<in> set (z # zs) \<and>
            e = EntanglementSwappingEvent (current_time (event_queue w)) [l, r]"
      using evs(2) by fastforce
    moreover have "\<forall>(l, r) \<in> set (z # zs). \<exists>e \<in> set (queue (event_queue w)) \<union> set evs. references l r e"
      using evs(3) ex by (auto simp: z)
    moreover have "(\<forall>(l, r) \<in> set (z # zs). \<exists>e \<in> set (queue (event_queue w)). references l r e) \<longrightarrow> evs = []"
      using evs(4) by simp
    ultimately show ?thesis by blast
  next
    case None
    define e where "e = EntanglementSwappingEvent (current_time (event_queue w)) [l, r]"
    define w1 where "w1 = enqueue [e] (random_state w) w"
    have noex: "\<not> (\<exists>e \<in> set (queue (event_queue w)). references l r e)"
      using None by (simp add: find_None_iff)
    have add: "add_event e w = Inr w1"
      by (simp add: add_event_eq e_def w1_def)
    from Cons.IH [of w1] obtain evs where
      evs: "schedule_swaps zs w1 = Inr (enqueue evs (random_state w1) w1)"
        "\<forall>e \<in> set evs. \<exists>l r. (l, r) \<in> set zs \<and>
            e = EntanglementSwappingEvent (current_time (event_queue w1)) [l, r]"
        "\<forall>(l, r) \<in> set zs. \<exists>e \<in> set (queue (event_queue w1)) \<union> set evs. references l r e"
      by blast
    have "schedule_swaps (z # zs) w = Inr (enqueue (e # evs) (random_state w) w)"
      using None add evs(1) by (simp add: z e_def [symmetric] w1_def)
    moreover have "\<forall>e' \<in> set (e # evs). \<exists>l r. (l, r) \<in> set (z # zs) \<and>
            e' = EntanglementSwappingEvent (current_time (event_queue w)) [l, r]"
      using evs(2) by (fastforce simp: z e_def w1_def)
    moreover have "\<forall>(l, r) \<in> set (z # zs). \<exists>e' \<in> set (queue (event_queue w)) \<union> set (e # evs). references l r e'"
      using evs(3) by (auto simp: z e_def w1_def set_insert_event)
    moreover have "(\<forall>(l, r) \<in> set (z # zs). \<exists>e \<in> set (queue (event_queue w)). references l r e) \<longrightarrow> e # evs = []"
      using noex by (simp add: z)
    ultimately show ?thesis by blast
  qed
qed

lemma schedule_swaps_objects:
  "schedule_swaps zs w = Inr w' \<Longrightarrow> world_objects w' = world_objects w"
  using schedule_swaps_total [of zs w] by auto

lemma replenish_objects:
  "replenish n jobs w = Inr w' \<Longrightarrow> world_objects w' = world_objects w"
  by (auto dest: replenish_Inr)

lemma get_pairs_cong:
  "world_objects w' = world_objects w \<Longrightarrow>
     get_pairs_between_stations w' a b = get_pairs_between_stations w a b"
  by (simp add: get_pairs_between_stations_def)

lemma swap_links_eq:
  "i < length pls \<Longrightarrow> j < length pls \<Longrightarrow>
     swap_links (map length pls) pls i j w = schedule_swaps (zip (pls ! i) (pls ! j)) w"
  by (cases "pls ! i"; cases "pls ! j") (simp_all add: swap_links_def index_def)

lemma destroy_Inr:
  "destroy kind ent w = Inr w' \<Longrightarrow>
     ent \<in> set (registered w kind) \<and>
     w' = w\<lparr>world_objects := (world_objects w)(kind \<mapsto> remove1 ent (registered w kind))\<rparr>"
  by (auto simp: destroy_def registered_def split: option.splits if_splits)

lemma registered_update [simp]:
  "registered (w\<lparr>world_objects := (world_objects w)(k \<mapsto> es)\<rparr>) k' =
     (if k' = k then es else registered w k')"
  by (simp add: registered_def)

lemma remove1_PairE: "remove1 (PairE x) (map PairE qs) = map PairE (remove1 x qs)"
  by (induction qs) auto

lemma fold_remove1_PairE:
  "fold remove1 (map PairE ys) (map PairE qs) = map PairE (fold remove1 ys qs)"
  by (induction ys arbitrary: qs) (auto simp: remove1_PairE)

lemma fold_remove1_Cons_other:
  "x \<notin> set ys \<Longrightarrow> fold remove1 ys (x # xs) = x # fold remove1 ys xs"
  by (induction ys arbitrary: xs) auto

lemma fold_remove1_filter: "fold remove1 (filter P qs) qs = filter (\<lambda>q. \<not> P q) qs"
proof (induction qs)
  case Nil
  show ?case by simp
next
  case (Cons q qs)
  show ?case
  proof (cases "P q")
    case True
    with Cons show ?thesis by simp
  next
    case False
    then have "q \<notin> set (filter P qs)" by simp
    from fold_remove1_Cons_other [OF this] Cons False show ?thesis by simp
  qed
qed

section \<open>The evaluation loop\<close>

lemma ebindE:
  assumes "ebind m f = Inr y"
  obtains x where "m = Inr x" "f x = Inr y"
  using assms by (auto simp: ebind_eq_Inr)

lemma get_pairs_typed:
  "registered w ''Pair'' = map PairE qs \<Longrightarrow>
     get_pairs_between_stations w a b = Inr (pairs_between qs a b)"
  by (simp add: get_pairs_registered pairs_between_def)

lemma get_pairs_Inr_typed:
  "get_pairs_between_stations w a b = Inr ps \<Longrightarrow> \<exists>qs. registered w ''Pair'' = map PairE qs"
  by (auto simp: get_pairs_registered dest: filter_pairs_Inr)

lemma num_pairs_typed:
  "registered w ''Pair'' = map PairE qs \<Longrightarrow>
     num_pairs_between w a b = length (pairs_between qs a b)"
  by (simp add: num_pairs_between_def get_pairs_typed)

lemma registered_cong: "world_objects w' = world_objects w \<Longrightarrow> registered w' k = registered w k"
  by (simp add: registered_def)

lemma length_remove1_mem: "x \<in> set xs \<Longrightarrow> length (remove1 x xs) + 1 = length xs"
  by (induction xs) auto

lemma index_Inr: "index xs i = Inr x \<longleftrightarrow> i < length xs \<and> x = xs ! i"
  by (auto simp: index_def)

lemma eval_loop_Inr:
  assumes "eval_loop d c lrps p w = Inr (p', w')"
    and "sat_central p = Some sc" "station_ground_left p = Some gl"
    and "station_ground_right p = Some gr"
  shows "event_queue w' = event_queue w \<and> random_state w' = random_state w \<and>
    (\<forall>k. k \<noteq> ''Pair'' \<and> k \<noteq> ''Qubit'' \<longrightarrow> world_objects w' k = world_objects w k) \<and>
    registered w' ''Pair'' = fold remove1 (map PairE lrps) (registered w ''Pair'') \<and>
    length (registered w' ''Pair'') + length lrps = length (registered w ''Pair'') \<and>
    registered w' ''Qubit'' =
      fold remove1 (concat (map (\<lambda>lp. [QubitE (qubits lp ! 0), QubitE (qubits lp ! 1)]) lrps))
        (registered w ''Qubit'') \<and>
    length (registered w' ''Qubit'') + 2 * length lrps = length (registered w ''Qubit'') \<and>
    p' = p\<lparr> time_list := time_list p @
                 replicate (length lrps)
                   (current_time (event_queue w) + max (d sc gl) (d sc gr) / c),
             state_list := state_list p @ map state lrps,
             resource_cost_max_list := resource_cost_max_list p @ map resource_cost_max lrps,
             resource_cost_add_list := resource_cost_add_list p @ map resource_cost_add lrps \<rparr>"
  using assms
proof (induction lrps arbitrary: p w)
  case Nil
  then show ?case by simp
next
  case (Cons lp rest)
  define p1 where "p1 = p\<lparr> time_list := time_list p @
                   [current_time (event_queue w) + max (d sc gl) (d sc gr) / c],
             state_list := state_list p @ [state lp],
             resource_cost_max_list := resource_cost_max_list p @ [resource_cost_max lp],
             resource_cost_add_list := resource_cost_add_list p @ [resource_cost_add lp] \<rparr>"
  have ep: "eval_pair d c p w lp = Inr p1"
    using Cons.prems(2-4) by (simp add: eval_pair_def p1_def)
  from Cons.prems(1) ep obtain w1 w2 w3 where
    i0: "0 < length (qubits lp)" and i1: "1 < length (qubits lp)"
    and d0: "destroy ''Qubit'' (QubitE (qubits lp ! 0)) w = Inr w1"
    and d1: "destroy ''Qubit'' (QubitE (qubits lp ! 1)) w1 = Inr w2"
    and d2: "destroy ''Pair'' (PairE lp) w2 = Inr w3"
    and rest: "eval_loop d c rest p1 w3 = Inr (p', w')"
    by (auto simp: ebind_eq_Inr index_Inr)
  note D0 = destroy_Inr [OF d0] and D1 = destroy_Inr [OF d1] and D2 = destroy_Inr [OF d2]
  have q3: "event_queue w3 = event_queue w" "random_state w3 = random_state w"
    using D0 D1 D2 by simp_all
  have o3: "\<forall>k. k \<noteq> ''Pair'' \<and> k \<noteq> ''Qubit'' \<longrightarrow> world_objects w3 k = world_objects w k"
    using D0 D1 D2 by simp
  have r1: "registered w1 ''Pair'' = registered w ''Pair''"
    "registered w1 ''Qubit'' = remove1 (QubitE (qubits lp ! 0)) (registered w ''Qubit'')"
    using D0 by simp_all
  have r2: "registered w2 ''Pair'' = registered w ''Pair''"
    "registered w2 ''Qubit'' =
       remove1 (QubitE (qubits lp ! 1)) (remove1 (QubitE (qubits lp ! 0)) (registered w ''Qubit''))"
    using D1 r1 by simp_all
  have r3: "registered w3 ''Pair'' = remove1 (PairE lp) (registered w ''Pair'')"
    "registered w3 ''Qubit'' =
       remove1 (QubitE (qubits lp ! 1)) (remove1 (QubitE (qubits lp ! 0)) (registered w ''Qubit''))"
    using D2 r2 by simp_all
  have m0: "QubitE (qubits lp ! 0) \<in> set (registered w ''Qubit'')"
    using D0 by simp
  have m1: "QubitE (qubits lp ! 1) \<in> set (remove1 (QubitE (qubits lp ! 0)) (registered w ''Qubit''))"
    using D1 r1 by simp
  have m2: "PairE lp \<in> set (registered w ''Pair'')"
    using D2 r2 by simp
  have lP: "length (registered w3 ''Pair'') + 1 = length (registered w ''Pair'')"
    using length_remove1_mem [OF m2] by (simp add: r3)
  have lQ1: "length (remove1 (QubitE (qubits lp ! 0)) (registered w ''Qubit'')) + 1
      = length (registered w ''Qubit'')"
    using length_remove1_mem [OF m0] by simp
  have lQ2: "length (registered w3 ''Qubit'') + 1
      = length (remove1 (QubitE (qubits lp ! 0)) (registered w ''Qubit''))"
    using length_remove1_mem [OF m1] by (simp add: r3)
  have lab: "sat_central p1 = Some sc" "station_ground_left p1 = Some gl"
    "station_ground_right p1 = Some gr"
    using Cons.prems(2-4) by (simp_all add: p1_def)
  note IH = Cons.IH [OF rest lab]
  from IH have ihq: "event_queue w' = event_queue w3" "random_state w' = random_state w3"
    and iho: "\<forall>k. k \<noteq> ''Pair'' \<and> k \<noteq> ''Qubit'' \<longrightarrow> world_objects w' k = world_objects w3 k"
    and ihP: "registered w' ''Pair'' = fold remove1 (map PairE rest) (registered w3 ''Pair'')"
    and ihlP: "length (registered w' ''Pair'') + length rest = length (registered w3 ''Pair'')"
    and ihQ: "registered w' ''Qubit'' =
      fold remove1 (concat (map (\<lambda>lp. [QubitE (qubits lp ! 0), QubitE (qubits lp ! 1)]) rest))
        (registered w3 ''Qubit'')"
    and ihlQ: "length (registered w' ''Qubit'') + 2 * length rest = length (registered w3 ''Qubit'')"
    and ihp: "p' = p1\<lparr> time_list := time_list p1 @
                 replicate (length rest)
                   (current_time (event_queue w3) + max (d sc gl) (d sc gr) / c),
             state_list := state_list p1 @ map state rest,
             resource_cost_max_list := resource_cost_max_list p1 @ map resource_cost_max rest,
             resource_cost_add_list := resource_cost_add_list p1 @ map resource_cost_add rest \<rparr>"
    by blast+
  have "event_queue w' = event_queue w" "random_state w' = random_state w"
    using ihq q3 by simp_all
  moreover have "\<forall>k. k \<noteq> ''Pair'' \<and> k \<noteq> ''Qubit'' \<longrightarrow> world_objects w' k = world_objects w k"
    using iho o3 by simp
  moreover have "registered w' ''Pair'' = fold remove1 (map PairE (lp # rest)) (registered w ''Pair'')"
    using ihP r3 by simp
  moreover have "length (registered w' ''Pair'') + length (lp # rest) = length (registered w ''Pair'')"
    using ihlP lP by simp
  moreover have "registered w' ''Qubit'' =
      fold remove1 (concat (map (\<lambda>lp. [QubitE (qubits lp ! 0), QubitE (qubits lp ! 1)]) (lp # rest)))
        (registered w ''Qubit'')"
    using ihQ r3 by simp
  moreover have "length (registered w' ''Qubit'') + 2 * length (lp # rest) = length (registered w ''Qubit'')"
    using ihlQ lQ1 lQ2 by simp
  moreover have "p' = p\<lparr> time_list := time_list p @
                 replicate (length (lp # rest))
                   (current_time (event_queue w) + max (d sc gl) (d sc gr) / c),
             state_list := state_list p @ map state (lp # rest),
             resource_cost_max_list := resource_cost_max_list p @ map resource_cost_max (lp # rest),
             resource_cost_add_list := resource_cost_add_list p @ map resource_cost_add (lp # rest) \<rparr>"
    using q3 by (simp add: ihp p1_def)
  ultimately show ?case by blast
qed

section \<open>One pass of check\<close>

lemma swap_links_4:
  "swap_links [length L0, length L1, length L2, length L3] [L0, L1, L2, L3] 0 (Suc 0) w =
     schedule_swaps (zip L0 L1) w"
  "swap_links [length L0, length L1, length L2, length L3] [L0, L1, L2, L3] 2 3 w =
     schedule_swaps (zip L2 L3) w"
  using swap_links_eq [of 0 "[L0, L1, L2, L3]" 1 w] swap_links_eq [of 2 "[L0, L1, L2, L3]" 3 w]
  by simp_all

lemma guard_zip:
  "(if xs \<noteq> [] \<and> ys \<noteq> [] then schedule_swaps (zip xs ys) w else Inr w) =
     schedule_swaps (zip xs ys) w"
  by (cases xs; cases ys) simp_all

lemma schedule_swaps_ex: "\<exists>w'. schedule_swaps zs w = Inr w'"
  using schedule_swaps_total [of zs w] by blast

lemma check_pass_stages:
  assumes ls: "link_stations p = Some [(a0, b0), (a1, b1), (a2, b2), (a3, b3)]"
    and gl: "station_ground_left p = Some gl" and sc: "sat_central p = Some sc"
    and gr: "station_ground_right p = Some gr"
    and typed: "registered w ''Pair'' = map PairE qs"
    and s1: "replenish (num_memories p)
               (zip [link_used w (a0, b0), link_used w (a1, b1),
                     link_used w (a2, b2), link_used w (a3, b3)] (sources p)) w = Inr w1"
    and s2: "schedule_swaps (zip (pairs_between qs a0 b0) (pairs_between qs a1 b1)) w1 = Inr w2"
    and s3: "schedule_swaps (zip (pairs_between qs a2 b2) (pairs_between qs a3 b3)) w2 = Inr w3"
    and s4: "schedule_swaps (zip (pairs_between qs gl sc) (pairs_between qs sc gr)) w3 = Inr w4"
  shows "check_pass d c p w =
     (if pairs_between qs gl gr \<noteq> []
      then ebind (eval_loop d c (pairs_between qs gl gr) p w4) (\<lambda>(p', w5). Inr (True, p', w5))
      else Inr (False, p, w4))"
proof -
  have o1: "world_objects w1 = world_objects w" by (rule replenish_objects [OF s1])
  have o3: "world_objects w3 = world_objects w"
    using schedule_swaps_objects [OF s2] schedule_swaps_objects [OF s3] o1 by simp
  have o4: "world_objects w4 = world_objects w"
    using schedule_swaps_objects [OF s4] o3 by simp
  have t3: "registered w3 ''Pair'' = map PairE qs"
    using typed registered_cong [OF o3] by simp
  have t4: "registered w4 ''Pair'' = map PairE qs"
    using typed registered_cong [OF o4] by simp
  have lu: "\<And>a b. length (pairs_between qs a b) + length (get_pairs_scheduled w a b) = link_used w (a, b)"
    by (simp add: link_used_def num_pairs_typed [OF typed])
  show ?thesis
    unfolding check_pass_def
    by (simp add: ls gl sc gr get_pairs_typed [OF typed] get_pairs_typed [OF t3]
        get_pairs_typed [OF t4] Let_def swap_links_4 guard_zip lu s1 s2 s3 s4)
qed

lemma check_pass_Inr:
  assumes pass: "check_pass d c p w = Inr x"
    and ls: "link_stations p = Some [(a0, b0), (a1, b1), (a2, b2), (a3, b3)]"
  obtains gl sc gr qs w1 w2 w3 w4 where
    "station_ground_left p = Some gl" "sat_central p = Some sc"
    "station_ground_right p = Some gr"
    "registered w ''Pair'' = map PairE qs"
    "replenish (num_memories p)
               (zip [link_used w (a0, b0), link_used w (a1, b1),
                     link_used w (a2, b2), link_used w (a3, b3)] (sources p)) w = Inr w1"
    "schedule_swaps (zip (pairs_between qs a0 b0) (pairs_between qs a1 b1)) w1 = Inr w2"
    "schedule_swaps (zip (pairs_between qs a2 b2) (pairs_between qs a3 b3)) w2 = Inr w3"
    "schedule_swaps (zip (pairs_between qs gl sc) (pairs_between qs sc gr)) w3 = Inr w4"
proof -
  have "\<exists>L. get_pairs_between_stations w a0 b0 = Inr L"
  proof (cases "get_pairs_between_stations w a0 b0")
    case (Inl e)
    then have "check_pass d c p w = Inl e"
      by (simp add: check_pass_def ls)
    with pass show ?thesis by simp
  qed blast
  then obtain qs where typed: "registered w ''Pair'' = map PairE qs"
    by (auto dest: get_pairs_Inr_typed)
  have lu: "\<And>a b. length (pairs_between qs a b) + length (get_pairs_scheduled w a b) = link_used w (a, b)"
    by (simp add: link_used_def num_pairs_typed [OF typed])
  have "\<exists>w1. replenish (num_memories p)
               (zip [link_used w (a0, b0), link_used w (a1, b1),
                     link_used w (a2, b2), link_used w (a3, b3)] (sources p)) w = Inr w1"
  proof (cases "replenish (num_memories p)
               (zip [link_used w (a0, b0), link_used w (a1, b1),
                     link_used w (a2, b2), link_used w (a3, b3)] (sources p)) w")
    case (Inl e)
    then have "check_pass d c p w = Inl e"
      by (simp add: check_pass_def ls get_pairs_typed [OF typed] Let_def lu)
    with pass show ?thesis by simp
  qed blast
  then obtain w1 where s1: "replenish (num_memories p)
               (zip [link_used w (a0, b0), link_used w (a1, b1),
                     link_used w (a2, b2), link_used w (a3, b3)] (sources p)) w = Inr w1" ..
  obtain w2 where s2:
    "schedule_swaps (zip (pairs_between qs a0 b0) (pairs_between qs a1 b1)) w1 = Inr w2"
    using schedule_swaps_ex by blast
  obtain w3 where s3:
    "schedule_swaps (zip (pairs_between qs a2 b2) (pairs_between qs a3 b3)) w2 = Inr w3"
    using schedule_swaps_ex by blast
  have o3: "world_objects w3 = world_objects w"
    using schedule_swaps_objects [OF s2] schedule_swaps_objects [OF s3] replenish_objects [OF s1]
    by simp
  have t3: "registered w3 ''Pair'' = map PairE qs"
    using typed registered_cong [OF o3] by simp
  note unf = check_pass_def ls get_pairs_typed [OF typed] get_pairs_typed [OF t3]
    Let_def lu s1 swap_links_4 s2 s3
  have "\<exists>gl. station_ground_left p = Some gl"
  proof (cases "station_ground_left p")
    case None
    then have "check_pass d c p w = Inl AttributeError"
      by (simp add: unf)
    with pass show ?thesis by simp
  qed blast
  then obtain gl where gl: "station_ground_left p = Some gl" ..
  have "\<exists>sc. sat_central p = Some sc"
  proof (cases "sat_central p")
    case None
    then have "check_pass d c p w = Inl AttributeError"
      by (simp add: unf gl)
    with pass show ?thesis by simp
  qed blast
  then obtain sc where sc: "sat_central p = Some sc" ..
  have "\<exists>gr. station_ground_right p = Some gr"
  proof (cases "station_ground_right p")
    case None
    then have "check_pass d c p w = Inl AttributeError"
      by (simp add: unf gl sc)
    with pass show ?thesis by simp
  qed blast
  then obtain gr where gr: "station_ground_right p = Some gr" ..
  obtain w4 where s4:
    "schedule_swaps (zip (pairs_between qs gl sc) (pairs_between qs sc gr)) w3 = Inr w4"
    using schedule_swaps_ex by blast
  from gl sc gr typed s1 s2 s3 s4 show ?thesis by (rule that)
qed

section \<open>The recursion of check\<close>

lemma check_pass_elim:
  assumes "check_pass d c p w = Inr res"
  obtains ls pls w1 w2 w3 gl sc lft gr rgt w4 lrps where
    "attr (link_stations p) = Inr ls"
    "map_err (\<lambda>(s1, s2). get_pairs_between_stations w s1 s2) ls = Inr pls"
    "replenish (num_memories p)
       (zip (map (\<lambda>(a, b). a + b)
               (zip (map length pls)
                    (map (\<lambda>(s1, s2). length (get_pairs_scheduled w s1 s2)) ls)))
            (sources p)) w = Inr w1"
    "swap_links (map length pls) pls 0 1 w1 = Inr w2"
    "swap_links (map length pls) pls 2 3 w2 = Inr w3"
    "attr (station_ground_left p) = Inr gl"
    "attr (sat_central p) = Inr sc"
    "get_pairs_between_stations w3 gl sc = Inr lft"
    "attr (station_ground_right p) = Inr gr"
    "get_pairs_between_stations w3 sc gr = Inr rgt"
    "(if length lft \<noteq> 0 \<and> length rgt \<noteq> 0
      then schedule_swaps (zip lft rgt) w3 else Inr w3) = Inr w4"
    "get_pairs_between_stations w4 gl gr = Inr lrps"
    "(if lrps \<noteq> []
      then ebind (eval_loop d c lrps p w4) (\<lambda>(p', w5). Inr (True, p', w5))
      else Inr (False, p, w4)) = Inr res"
  using assms unfolding check_pass_def Let_def
  by (elim ebindE) (rule that; assumption)

lemma swap_links_enqueue:
  "swap_links ns pls i j w = Inr w' \<Longrightarrow> \<exists>evs. w' = enqueue evs (random_state w) w"
  unfolding swap_links_def
  using schedule_swaps_total [of "zip (pls ! i) (pls ! j)" w]
  by (auto simp: ebind_eq_Inr index_Inr split: if_splits intro: exI [of _ "[]"])

lemma check_pass_frame:
  assumes "check_pass d c p w = Inr (again, p', w')"
  obtains gl sc gr evs r lrps where
    "station_ground_left p = Some gl" "sat_central p = Some sc"
    "station_ground_right p = Some gr"
    "get_pairs_between_stations w gl gr = Inr lrps"
    "again = (lrps \<noteq> [])"
    "eval_loop d c lrps p (enqueue evs r w) = Inr (p', w')"
proof -
  from assms obtain ls pls w1 w2 w3 gl sc lft gr rgt w4 lrps where
    s1: "replenish (num_memories p)
       (zip (map (\<lambda>(a, b). a + b)
               (zip (map length pls)
                    (map (\<lambda>(s1, s2). length (get_pairs_scheduled w s1 s2)) ls)))
            (sources p)) w = Inr w1"
    and s2: "swap_links (map length pls) pls 0 1 w1 = Inr w2"
    and s3: "swap_links (map length pls) pls 2 3 w2 = Inr w3"
    and gl: "attr (station_ground_left p) = Inr gl"
    and sc: "attr (sat_central p) = Inr sc"
    and gr: "attr (station_ground_right p) = Inr gr"
    and s4: "(if length lft \<noteq> 0 \<and> length rgt \<noteq> 0
      then schedule_swaps (zip lft rgt) w3 else Inr w3) = Inr w4"
    and lr: "get_pairs_between_stations w4 gl gr = Inr lrps"
    and fin: "(if lrps \<noteq> []
      then ebind (eval_loop d c lrps p w4) (\<lambda>(p', w5). Inr (True, p', w5))
      else Inr (False, p, w4)) = Inr (again, p', w')"
    by (rule check_pass_elim)
  from replenish_Inr [OF s1] obtain evs1 r1 where e1: "w1 = enqueue evs1 r1 w"
    by blast
  from swap_links_enqueue [OF s2] obtain evs2 where e2: "w2 = enqueue evs2 (random_state w1) w1"
    by blast
  from swap_links_enqueue [OF s3] obtain evs3 where e3: "w3 = enqueue evs3 (random_state w2) w2"
    by blast
  have "\<exists>evs4. w4 = enqueue evs4 (random_state w3) w3"
  proof (cases "length lft \<noteq> 0 \<and> length rgt \<noteq> 0")
    case True
    with s4 schedule_swaps_total [of "zip lft rgt" w3] show ?thesis by auto
  next
    case False
    with s4 have "w4 = enqueue [] (random_state w3) w3" by auto
    then show ?thesis ..
  qed
  then obtain evs4 where e4: "w4 = enqueue evs4 (random_state w3) w3" ..
  define evs where "evs = evs1 @ evs2 @ evs3 @ evs4"
  have w4: "w4 = enqueue evs r1 w"
    by (simp add: e1 e2 e3 e4 evs_def)
  have lr': "get_pairs_between_stations w gl gr = Inr lrps"
    using lr get_pairs_cong [of w4 w gl gr] by (simp add: w4)
  have ag: "again = (lrps \<noteq> [])"
    using fin by (auto simp: ebind_eq_Inr split: if_splits)
  have el: "eval_loop d c lrps p (enqueue evs r1 w) = Inr (p', w')"
    using fin by (auto simp: ebind_eq_Inr w4 split: if_splits)
  from gl sc gr lr' ag el show ?thesis
    by (intro that [of gl sc gr lrps evs r1]) (simp_all add: attr_eq_Inr)
qed

lemma check_pass_decreases:
  assumes "check_pass d c p w = Inr (True, p', w')"
  shows "length (registered w' ''Pair'') < length (registered w ''Pair'')"
proof -
  from assms obtain gl sc gr evs r lrps where
    lab: "station_ground_left p = Some gl" "sat_central p = Some sc"
    "station_ground_right p = Some gr"
    and ne: "True = (lrps \<noteq> [])"
    and el: "eval_loop d c lrps p (enqueue evs r w) = Inr (p', w')"
    by (rule check_pass_frame)
  from eval_loop_Inr [OF el lab(2) lab(1) lab(3)]
  have "length (registered w' ''Pair'') + length lrps = length (registered (enqueue evs r w) ''Pair'')"
    by blast
  with ne show ?thesis by (cases lrps) simp_all
qed

lemma check_returns: "\<exists>res. check d c p w = Some res"
proof (induction "length (registered w ''Pair'')" arbitrary: p w rule: less_induct)
  case less
  show ?case
  proof (cases "check_pass d c p w")
    case (Inl e)
    then show ?thesis by (subst check.simps) simp
  next
    case (Inr x)
    obtain again p' w' where x: "x = (again, p', w')" by (cases x)
    show ?thesis
    proof (cases again)
      case True
      with Inr x have "length (registered w' ''Pair'') < length (registered w ''Pair'')"
        by (auto dest: check_pass_decreases)
      from less [OF this] obtain res where "check d c p' w' = Some res" ..
      with Inr x True show ?thesis by (subst check.simps) simp
    next
      case False
      with Inr x show ?thesis by (subst check.simps) simp
    qed
  qed
qed

lemma check_stops:
  assumes "station_ground_left p = Some gl" "station_ground_right p = Some gr"
    and "get_pairs_between_stations w gl gr = Inr []"
  shows "check d c p w =
     (case check_pass d c p w of Inl e \<Rightarrow> Some (Inl e) | Inr (again, p', w') \<Rightarrow> Some (Inr (p', w')))"
proof (cases "check_pass d c p w")
  case (Inl e)
  then show ?thesis by (subst check.simps) simp
next
  case (Inr x)
  obtain again p' w' where x: "x = (again, p', w')" by (cases x)
  from Inr [unfolded x] obtain gl' gr' lrps where
    "station_ground_left p = Some gl'" "station_ground_right p = Some gr'"
    "get_pairs_between_stations w gl' gr' = Inr lrps" "again = (lrps \<noteq> [])"
    by (rule check_pass_frame)
  with assms have "\<not> again" by simp
  with Inr x show ?thesis by (subst check.simps) simp
qed

section \<open>A whole call of check\<close>

lemma get_pairs_Inr_between:
  assumes "get_pairs_between_stations w a b = Inr ps"
  obtains qs where "registered w ''Pair'' = map PairE qs" "ps = pairs_between qs a b"
  using assms
  by (auto simp: get_pairs_registered pairs_between_def dest: filter_pairs_Inr)

lemma pairs_between_removed:
  "pairs_between (filter (\<lambda>q. \<not> is_between_stations q a b) qs) a b = []"
  by (simp add: pairs_between_def)

lemma removed_typed:
  "fold remove1 (map PairE (pairs_between qs a b)) (map PairE qs) =
     map PairE (filter (\<lambda>q. \<not> is_between_stations q a b) qs)"
  by (simp add: pairs_between_def fold_remove1_PairE fold_remove1_filter)

lemma check_summary:
  assumes chk: "check d c p w = Some (Inr (p', w'))"
  obtains gl sc gr lrps where
    "station_ground_left p = Some gl" "sat_central p = Some sc"
    "station_ground_right p = Some gr"
    "get_pairs_between_stations w gl gr = Inr lrps"
    "p' = p\<lparr> time_list := time_list p @
                 replicate (length lrps)
                   (current_time (event_queue w) + max (d sc gl) (d sc gr) / c),
             state_list := state_list p @ map state lrps,
             resource_cost_max_list := resource_cost_max_list p @ map resource_cost_max lrps,
             resource_cost_add_list := resource_cost_add_list p @ map resource_cost_add lrps \<rparr>"
    "registered w' ''Pair'' = fold remove1 (map PairE lrps) (registered w ''Pair'')"
    "length (registered w' ''Pair'') + length lrps = length (registered w ''Pair'')"
    "registered w' ''Qubit'' =
      fold remove1 (concat (map (\<lambda>lp. [QubitE (qubits lp ! 0), QubitE (qubits lp ! 1)]) lrps))
        (registered w ''Qubit'')"
    "length (registered w' ''Qubit'') + 2 * length lrps = length (registered w ''Qubit'')"
    "get_pairs_between_stations w' gl gr = Inr []"
proof -
  obtain again p1 w1 where pass: "check_pass d c p w = Inr (again, p1, w1)"
    and rest: "(if again then check d c p1 w1 else Some (Inr (p1, w1))) = Some (Inr (p', w'))"
    using chk by (subst (asm) check.simps) (auto split: sum.splits)
  from pass obtain gl sc gr evs r lrps where
    lab: "station_ground_left p = Some gl" "sat_central p = Some sc"
      "station_ground_right p = Some gr"
    and lr: "get_pairs_between_stations w gl gr = Inr lrps"
    and ag: "again = (lrps \<noteq> [])"
    and el: "eval_loop d c lrps p (enqueue evs r w) = Inr (p1, w1)"
    by (rule check_pass_frame)
  from lr obtain qs where typed: "registered w ''Pair'' = map PairE qs"
    and lrps: "lrps = pairs_between qs gl gr"
    by (rule get_pairs_Inr_between)
  note E = eval_loop_Inr [OF el lab(2) lab(1) lab(3)]
  define w0 where "w0 = enqueue evs r w"
  have w0: "registered w0 ''Pair'' = registered w ''Pair''"
    "registered w0 ''Qubit'' = registered w ''Qubit''"
    "current_time (event_queue w0) = current_time (event_queue w)"
    by (simp_all add: w0_def)
  from E [folded w0_def] have p1': "p1 = p\<lparr> time_list := time_list p @
                 replicate (length lrps)
                   (current_time (event_queue w0) + max (d sc gl) (d sc gr) / c),
             state_list := state_list p @ map state lrps,
             resource_cost_max_list := resource_cost_max_list p @ map resource_cost_max lrps,
             resource_cost_add_list := resource_cost_add_list p @ map resource_cost_add lrps \<rparr>"
    and rP': "registered w1 ''Pair'' = fold remove1 (map PairE lrps) (registered w0 ''Pair'')"
    and lP': "length (registered w1 ''Pair'') + length lrps = length (registered w0 ''Pair'')"
    and rQ': "registered w1 ''Qubit'' =
      fold remove1 (concat (map (\<lambda>lp. [QubitE (qubits lp ! 0), QubitE (qubits lp ! 1)]) lrps))
        (registered w0 ''Qubit'')"
    and lQ': "length (registered w1 ''Qubit'') + 2 * length lrps = length (registered w0 ''Qubit'')"
    by blast+
  note p1 = p1' [unfolded w0] and rP = rP' [unfolded w0] and lP = lP' [unfolded w0]
    and rQ = rQ' [unfolded w0] and lQ = lQ' [unfolded w0]
  have t1: "registered w1 ''Pair'' = map PairE (filter (\<lambda>q. \<not> is_between_stations q gl gr) qs)"
    by (simp add: rP typed lrps removed_typed)
  have g1: "get_pairs_between_stations w1 gl gr = Inr []"
    by (simp add: get_pairs_typed [OF t1] pairs_between_removed)
  have "p' = p1 \<and> (\<forall>k. registered w' k = registered w1 k)"
  proof (cases again)
    case False
    with rest show ?thesis by simp
  next
    case True
    have lab1: "station_ground_left p1 = Some gl" "station_ground_right p1 = Some gr"
      using lab by (simp_all add: p1)
    from True rest have "check d c p1 w1 = Some (Inr (p', w'))" by simp
    with check_stops [OF lab1 g1, of d c]
    obtain a2 where pass2: "check_pass d c p1 w1 = Inr (a2, p', w')"
      by (auto split: sum.splits)
    from pass2 obtain gl2 gr2 evs2 r2 lrps2 where
      "station_ground_left p1 = Some gl2" "station_ground_right p1 = Some gr2"
      "get_pairs_between_stations w1 gl2 gr2 = Inr lrps2"
      "eval_loop d c lrps2 p1 (enqueue evs2 r2 w1) = Inr (p', w')"
      by (rule check_pass_frame)
    with lab1 g1 have "p' = p1" "w' = enqueue evs2 r2 w1"
      by simp_all
    then show ?thesis by simp
  qed
  then have same: "p' = p1" "\<And>k. registered w' k = registered w1 k"
    by simp_all
  have g': "get_pairs_between_stations w' gl gr = Inr []"
    using g1 by (simp add: get_pairs_registered same)
  show ?thesis
    using lab lr p1 rP lP rQ lQ g'
    by (intro that [of gl sc gr lrps]) (simp_all add: same)
qed

section \<open>Termination and the evaluation of long-range pairs\<close>

lemma ready_protocol_eq:
  "ready_protocol n =
     (chain_protocol n)\<lparr> station_ground_left := Some 0, sat_left := Some 1,
        sat_central := Some 2, sat_right := Some 3, station_ground_right := Some 4,
        source_link1 := Some (chain_source 0), source_link2 := Some (chain_source 1),
        source_link3 := Some (chain_source 2), source_link4 := Some (chain_source 3),
        link_stations := Some [(0, 1), (1, 2), (2, 3), (3, 4)] \<rparr>"
  by (simp add: ready_protocol_def setup_protocol_def chain_protocol_def init_def
      chain_source_def upt_rec eval_nat_numeral)

lemma max_divide: "0 < (c::real) \<Longrightarrow> max a b / c = max (a / c) (b / c)"
  by (simp add: max_def divide_le_cancel)

lemma check_Inr_cases:
  assumes "case check d c p w of Some (Inr x) \<Rightarrow> True | _ \<Rightarrow> False"
  obtains p' w' where "check d c p w = Some (Inr (p', w'))"
  using assms by (auto split: option.splits sum.splits)

text \<open>
  C3: \<open>check\<close> returns (a result or an exception) from every protocol object and every
  world, so it calls itself only finitely often; and a pass in a world without a pair
  between the two ground stations is the last one.
\<close>

theorem check_terminates:
  "(\<exists>res. check d c p w = Some res) \<and>
   (\<forall>gl gr. station_ground_left p = Some gl \<longrightarrow> station_ground_right p = Some gr \<longrightarrow>
      get_pairs_between_stations w gl gr = Inr [] \<longrightarrow>
      check d c p w =
        (case check_pass d c p w of
           Inl e \<Rightarrow> Some (Inl e)
         | Inr (again, p', w') \<Rightarrow> Some (Inr (p', w'))))"
  using check_returns [of d c p w] check_stops [of p _ _ w d c] by blast

theorem check_terminates_witness:
  "station_ground_left (ready_protocol 2) = Some 0 \<and>
   station_ground_right (ready_protocol 2) = Some 4 \<and>
   get_pairs_between_stations (world_with [chain_pair 7 0 1]) 0 4 = Inr [] \<and>
   (\<exists>res. check chain_distance 1 (ready_protocol 2) (world_with [chain_pair 7 0 1]) = Some res) \<and>
   check chain_distance 1 (ready_protocol 2) (world_with [chain_pair 7 0 1]) =
     (case check_pass chain_distance 1 (ready_protocol 2) (world_with [chain_pair 7 0 1]) of
        Inl e \<Rightarrow> Some (Inl e)
      | Inr (again, p', w') \<Rightarrow> Some (Inr (p', w')))"
proof -
  have a: "station_ground_left (ready_protocol 2) = Some 0"
    and b: "station_ground_right (ready_protocol 2) = Some 4"
    by (simp_all add: ready_protocol_eq)
  have g: "get_pairs_between_stations (world_with [chain_pair 7 0 1]) 0 4 = Inr []"
    by code_simp
  from a b g check_terminates [of chain_distance 1 "ready_protocol 2" "world_with [chain_pair 7 0 1]"]
  show ?thesis by blast
qed

text \<open>
  C6: a call of \<open>check\<close> that returns has appended, for every pair between the two ground
  stations, the current time plus the larger of the two delays from the central satellite
  to the ground stations, and the pair's state and two resource costs, to the four logs;
  and it has removed each of these pairs and its first two qubits from the world.
\<close>

theorem long_range_evaluation:
  assumes "check d c p w = Some (Inr (p', w'))"
    and "station_ground_left p = Some gl" and "sat_central p = Some sc"
    and "station_ground_right p = Some gr"
    and "get_pairs_between_stations w gl gr = Inr lrps"
    and "0 < c"
  shows "time_list p' = time_list p @
           replicate (length lrps)
             (current_time (event_queue w) + max (d sc gl / c) (d sc gr / c)) \<and>
         state_list p' = state_list p @ map state lrps \<and>
         resource_cost_max_list p' = resource_cost_max_list p @ map resource_cost_max lrps \<and>
         resource_cost_add_list p' = resource_cost_add_list p @ map resource_cost_add lrps \<and>
         registered w' ''Pair'' = fold remove1 (map PairE lrps) (registered w ''Pair'') \<and>
         length (registered w' ''Pair'') + length lrps = length (registered w ''Pair'') \<and>
         registered w' ''Qubit'' =
           fold remove1
             (concat (map (\<lambda>lp. [QubitE (qubits lp ! 0), QubitE (qubits lp ! 1)]) lrps))
             (registered w ''Qubit'') \<and>
         length (registered w' ''Qubit'') + 2 * length lrps = length (registered w ''Qubit'') \<and>
         get_pairs_between_stations w' gl gr = Inr []"
proof -
  from assms(1) obtain gl' sc' gr' lrps' where
    lab: "station_ground_left p = Some gl'" "sat_central p = Some sc'"
      "station_ground_right p = Some gr'"
    and lr: "get_pairs_between_stations w gl' gr' = Inr lrps'"
    and p': "p' = p\<lparr> time_list := time_list p @
                 replicate (length lrps')
                   (current_time (event_queue w) + max (d sc' gl') (d sc' gr') / c),
             state_list := state_list p @ map state lrps',
             resource_cost_max_list := resource_cost_max_list p @ map resource_cost_max lrps',
             resource_cost_add_list := resource_cost_add_list p @ map resource_cost_add lrps' \<rparr>"
    and rest: "registered w' ''Pair'' = fold remove1 (map PairE lrps') (registered w ''Pair'')"
      "length (registered w' ''Pair'') + length lrps' = length (registered w ''Pair'')"
      "registered w' ''Qubit'' =
        fold remove1 (concat (map (\<lambda>lp. [QubitE (qubits lp ! 0), QubitE (qubits lp ! 1)]) lrps'))
          (registered w ''Qubit'')"
      "length (registered w' ''Qubit'') + 2 * length lrps' = length (registered w ''Qubit'')"
      "get_pairs_between_stations w' gl' gr' = Inr []"
    by (rule check_summary)
  from lab lr assms(2-5) have eq: "gl' = gl" "sc' = sc" "gr' = gr" "lrps' = lrps"
    by simp_all
  show ?thesis
    using rest by (simp add: p' eq max_divide [OF assms(6)])
qed

theorem long_range_evaluation_witness:
  "\<exists>p' w'. check chain_distance 1 (ready_protocol 2)
             (world_with [chain_pair 7 0 4, chain_pair 8 0 1]) = Some (Inr (p', w')) \<and>
     time_list p' = [2] \<and> state_list p' = [[[1]]] \<and>
     resource_cost_max_list p' = [1] \<and> resource_cost_add_list p' = [1] \<and>
     registered w' ''Pair'' = [PairE (chain_pair 8 0 1)] \<and>
     registered w' ''Qubit'' = [QubitE 16, QubitE 17]"
proof -
  let ?w = "world_with [chain_pair 7 0 4, chain_pair 8 0 1]"
  have "case check chain_distance 1 (ready_protocol 2) ?w of
          Some (Inr x) \<Rightarrow> True | _ \<Rightarrow> False"
    by code_simp
  then obtain p' w' where chk: "check chain_distance 1 (ready_protocol 2) ?w = Some (Inr (p', w'))"
    by (rule check_Inr_cases)
  have lab: "station_ground_left (ready_protocol 2) = Some 0"
    "sat_central (ready_protocol 2) = Some 2"
    "station_ground_right (ready_protocol 2) = Some 4"
    by (simp_all add: ready_protocol_eq)
  have g: "get_pairs_between_stations ?w 0 4 = Inr [chain_pair 7 0 4]"
    by code_simp
  have c: "0 < (1::real)" by simp
  have t: "time_list (ready_protocol 2) = []" "state_list (ready_protocol 2) = []"
    "resource_cost_max_list (ready_protocol 2) = []"
    "resource_cost_add_list (ready_protocol 2) = []"
    by (simp_all add: ready_protocol_eq chain_protocol_def init_def)
  from long_range_evaluation [OF chk lab g c]
  have "time_list p' = [2] \<and> state_list p' = [[[1]]] \<and>
     resource_cost_max_list p' = [1] \<and> resource_cost_add_list p' = [1] \<and>
     registered w' ''Pair'' = [PairE (chain_pair 8 0 1)] \<and>
     registered w' ''Qubit'' = [QubitE 16, QubitE 17]"
    by (simp add: t chain_distance_def world_with_def registered_def chain_pair_def)
  with chk show ?thesis by blast
qed

section \<open>The measurement logs\<close>

lemma check_pass_config:
  assumes "check_pass d c p w = Inr (again, p', w')"
  shows "\<exists>ts ss ms as. length ss = length ts \<and> length ms = length ts \<and> length as = length ts \<and>
     p' = p\<lparr> time_list := time_list p @ ts, state_list := state_list p @ ss,
              resource_cost_max_list := resource_cost_max_list p @ ms,
              resource_cost_add_list := resource_cost_add_list p @ as \<rparr>"
proof -
  from assms obtain gl sc gr evs r lrps where
    lab: "station_ground_left p = Some gl" "sat_central p = Some sc"
      "station_ground_right p = Some gr"
    and el: "eval_loop d c lrps p (enqueue evs r w) = Inr (p', w')"
    by (rule check_pass_frame)
  define t where "t = current_time (event_queue (enqueue evs r w)) + max (d sc gl) (d sc gr) / c"
  from eval_loop_Inr [OF el lab(2) lab(1) lab(3), folded t_def]
  have "p' = p\<lparr> time_list := time_list p @ replicate (length lrps) t,
             state_list := state_list p @ map state lrps,
             resource_cost_max_list := resource_cost_max_list p @ map resource_cost_max lrps,
             resource_cost_add_list := resource_cost_add_list p @ map resource_cost_add lrps \<rparr>"
    by blast
  then show ?thesis
    by (intro exI [of _ "replicate (length lrps) t"] exI [of _ "map state lrps"]
        exI [of _ "map resource_cost_max lrps"] exI [of _ "map resource_cost_add lrps"]) simp
qed

lemma check_passes:
  assumes chk: "check d c p w = Some (Inr (p', w'))"
  shows "check_pass d c p w = Inr (False, p', w') \<or>
     (\<exists>p1 w1. check_pass d c p w = Inr (True, p1, w1) \<and>
        check_pass d c p1 w1 = Inr (False, p', w'))"
proof -
  obtain again p1 w1 where pass: "check_pass d c p w = Inr (again, p1, w1)"
    and rest: "(if again then check d c p1 w1 else Some (Inr (p1, w1))) = Some (Inr (p', w'))"
    using chk by (subst (asm) check.simps) (auto split: sum.splits)
  show ?thesis
  proof (cases again)
    case False
    with pass rest show ?thesis by simp
  next
    case True
    from pass obtain gl sc gr evs r lrps where
      lab: "station_ground_left p = Some gl" "sat_central p = Some sc"
        "station_ground_right p = Some gr"
      and lr: "get_pairs_between_stations w gl gr = Inr lrps"
      and el: "eval_loop d c lrps p (enqueue evs r w) = Inr (p1, w1)"
      by (rule check_pass_frame)
    from lr obtain qs where typed: "registered w ''Pair'' = map PairE qs"
      and lrps: "lrps = pairs_between qs gl gr"
      by (rule get_pairs_Inr_between)
    from eval_loop_Inr [OF el lab(2) lab(1) lab(3)]
    have rP: "registered w1 ''Pair'' =
        fold remove1 (map PairE lrps) (registered (enqueue evs r w) ''Pair'')"
      by blast
    have t1: "registered w1 ''Pair'' = map PairE (filter (\<lambda>q. \<not> is_between_stations q gl gr) qs)"
      by (simp add: rP typed lrps removed_typed)
    have g1: "get_pairs_between_stations w1 gl gr = Inr []"
      by (simp add: get_pairs_typed [OF t1] pairs_between_removed)
    from check_pass_config [OF pass] lab
    have lab1: "station_ground_left p1 = Some gl" "station_ground_right p1 = Some gr"
      by auto
    from True rest have c1: "check d c p1 w1 = Some (Inr (p', w'))" by simp
    with check_stops [OF lab1 g1, of d c]
    obtain a2 where pass2: "check_pass d c p1 w1 = Inr (a2, p', w')"
      by (auto split: sum.splits)
    from pass2 obtain gl2 gr2 lrps2 where
      "station_ground_left p1 = Some gl2" "station_ground_right p1 = Some gr2"
      "get_pairs_between_stations w1 gl2 gr2 = Inr lrps2" "a2 = (lrps2 \<noteq> [])"
      by (rule check_pass_frame)
    with lab1 g1 have "\<not> a2" by simp
    with pass pass2 True show ?thesis by simp
  qed
qed

lemma check_logs:
  assumes "check d c p w = Some (Inr (p', w'))"
  shows "\<exists>ts ss ms as. length ss = length ts \<and> length ms = length ts \<and> length as = length ts \<and>
     p' = p\<lparr> time_list := time_list p @ ts, state_list := state_list p @ ss,
              resource_cost_max_list := resource_cost_max_list p @ ms,
              resource_cost_add_list := resource_cost_add_list p @ as \<rparr>"
proof -
  from check_passes [OF assms] show ?thesis
  proof
    assume "check_pass d c p w = Inr (False, p', w')"
    then show ?thesis by (rule check_pass_config)
  next
    assume "\<exists>p1 w1. check_pass d c p w = Inr (True, p1, w1) \<and>
        check_pass d c p1 w1 = Inr (False, p', w')"
    then obtain p1 w1 where a: "check_pass d c p w = Inr (True, p1, w1)"
      and b: "check_pass d c p1 w1 = Inr (False, p', w')"
      by blast
    from check_pass_config [OF a] obtain ts ss ms as where
      1: "length ss = length ts" "length ms = length ts" "length as = length ts"
      "p1 = p\<lparr> time_list := time_list p @ ts, state_list := state_list p @ ss,
              resource_cost_max_list := resource_cost_max_list p @ ms,
              resource_cost_add_list := resource_cost_add_list p @ as \<rparr>"
      by blast
    from check_pass_config [OF b] obtain ts' ss' ms' as' where
      2: "length ss' = length ts'" "length ms' = length ts'" "length as' = length ts'"
      "p' = p1\<lparr> time_list := time_list p1 @ ts', state_list := state_list p1 @ ss',
              resource_cost_max_list := resource_cost_max_list p1 @ ms',
              resource_cost_add_list := resource_cost_add_list p1 @ as' \<rparr>"
      by blast
    show ?thesis
      using 1 2
      by (intro exI [of _ "ts @ ts'"] exI [of _ "ss @ ss'"] exI [of _ "ms @ ms'"]
          exI [of _ "as @ as'"]) simp
  qed
qed

text \<open>
  C7: over any sequence of calls of \<open>check\<close> that return, each of the four logs is
  extended at its end only, and logs of equal length before the sequence have equal
  length after it.
\<close>

theorem logs_only_grow:
  assumes "check_seq d c p ws = Some (Inr p')"
  shows "prefix (time_list p) (time_list p') \<and>
         prefix (state_list p) (state_list p') \<and>
         prefix (resource_cost_max_list p) (resource_cost_max_list p') \<and>
         prefix (resource_cost_add_list p) (resource_cost_add_list p') \<and>
         (logs_aligned p \<longrightarrow> logs_aligned p')"
  using assms
proof (induction ws arbitrary: p)
  case Nil
  then show ?case by simp
next
  case (Cons w ws)
  from Cons.prems obtain p1 w1 where chk: "check d c p w = Some (Inr (p1, w1))"
    and seq: "check_seq d c p1 ws = Some (Inr p')"
    by (auto split: option.splits sum.splits)
  from check_logs [OF chk] obtain ts ss ms as where
    len: "length ss = length ts" "length ms = length ts" "length as = length ts"
    and p1: "p1 = p\<lparr> time_list := time_list p @ ts, state_list := state_list p @ ss,
              resource_cost_max_list := resource_cost_max_list p @ ms,
              resource_cost_add_list := resource_cost_add_list p @ as \<rparr>"
    by blast
  have step: "prefix (time_list p) (time_list p1)" "prefix (state_list p) (state_list p1)"
    "prefix (resource_cost_max_list p) (resource_cost_max_list p1)"
    "prefix (resource_cost_add_list p) (resource_cost_add_list p1)"
    "logs_aligned p \<longrightarrow> logs_aligned p1"
    using len by (simp_all add: p1 logs_aligned_def)
  from Cons.IH [OF seq] step show ?case
    by (meson prefix_order.trans)
qed

theorem logs_only_grow_witness:
  "logs_aligned (ready_protocol 2) \<and>
   (\<exists>p'. check_seq chain_distance 1 (ready_protocol 2)
            [world_with [chain_pair 7 0 4], empty_world, world_with [chain_pair 8 4 0]]
          = Some (Inr p') \<and>
      prefix (time_list (ready_protocol 2)) (time_list p') \<and>
      prefix (state_list (ready_protocol 2)) (state_list p') \<and>
      prefix (resource_cost_max_list (ready_protocol 2)) (resource_cost_max_list p') \<and>
      prefix (resource_cost_add_list (ready_protocol 2)) (resource_cost_add_list p') \<and>
      logs_aligned p' \<and> length (time_list p') = 2)"
proof -
  let ?ws = "[world_with [chain_pair 7 0 4], empty_world, world_with [chain_pair 8 4 0]]"
  have al: "logs_aligned (ready_protocol 2)"
    by (simp add: logs_aligned_def ready_protocol_eq chain_protocol_def init_def)
  have "case check_seq chain_distance 1 (ready_protocol 2) ?ws of
          Some (Inr p') \<Rightarrow> length (time_list p') = 2 | _ \<Rightarrow> False"
    by code_simp
  then obtain p' where seq: "check_seq chain_distance 1 (ready_protocol 2) ?ws = Some (Inr p')"
    and l: "length (time_list p') = 2"
    by (auto split: option.splits sum.splits)
  from logs_only_grow [OF seq] al l seq show ?thesis by blast
qed

section \<open>Calling check twice\<close>

lemma schedule_swaps_covers:
  assumes "schedule_swaps zs w = Inr w'"
  shows "swaps_covered zs w'"
    and "\<exists>evs. w' = enqueue evs (random_state w) w \<and> (\<forall>e \<in> set evs. is_swap e)"
proof -
  from schedule_swaps_total [of zs w] assms obtain evs where
    w': "w' = enqueue evs (random_state w) w"
    and sw: "\<forall>e \<in> set evs. \<exists>l r. (l, r) \<in> set zs \<and>
         e = EntanglementSwappingEvent (current_time (event_queue w)) [l, r]"
    and cov: "\<forall>(l, r) \<in> set zs. \<exists>e \<in> set (queue (event_queue w)) \<union> set evs. references l r e"
    by auto
  from cov show "swaps_covered zs w'"
    by (simp add: swaps_covered_def w' set_fold_insert_event Un_commute)
  from sw have "\<forall>e \<in> set evs. is_swap e" by fastforce
  with w' show "\<exists>evs. w' = enqueue evs (random_state w) w \<and> (\<forall>e \<in> set evs. is_swap e)"
    by blast
qed

lemma covered_enqueue: "swaps_covered zs w \<Longrightarrow> swaps_covered zs (enqueue evs r w)"
  by (fastforce simp: swaps_covered_def set_fold_insert_event)

lemma schedule_swaps_noop: "swaps_covered zs w \<Longrightarrow> schedule_swaps zs w = Inr w"
  using schedule_swaps_total [of zs w] by (auto simp: swaps_covered_def)

lemma length_5: "length xs = 5 \<Longrightarrow> \<exists>a b c d e. xs = [a, b, c, d, e]"
  by (auto simp: length_Suc_conv eval_nat_numeral)

lemma length_4: "length xs = 4 \<Longrightarrow> \<exists>a b c d. xs = [a, b, c, d]"
  by (auto simp: length_Suc_conv eval_nat_numeral)

lemma setup_Inr:
  assumes "setup_protocol p0 = Inr p"
  obtains s0 s1 s2 s3 s4 c0 c1 c2 c3 where
    "stations p = [s0, s1, s2, s3, s4]" "sources p = [c0, c1, c2, c3]"
    "link_stations p = Some [(s0, s1), (s1, s2), (s2, s3), (s3, s4)]"
    "station_ground_left p = Some s0" "sat_central p = Some s2"
    "station_ground_right p = Some s4"
    "\<forall>s \<in> set (sources p). has_schedule_event s"
    "num_memories p = num_memories p0" "stations p = stations p0" "sources p = sources p0"
    "time_list p = time_list p0" "state_list p = state_list p0"
    "resource_cost_max_list p = resource_cost_max_list p0"
    "resource_cost_add_list p = resource_cost_add_list p0"
proof -
  from assms have l5: "length (stations p0) = 5" and l4: "length (sources p0) = 4"
    and cal: "\<forall>s \<in> set (sources p0). has_schedule_event s"
    by (auto simp: setup_protocol_def list_all_iff split: if_splits)
  from length_5 [OF l5] obtain s0 s1 s2 s3 s4 where st: "stations p0 = [s0, s1, s2, s3, s4]"
    by blast
  from length_4 [OF l4] obtain c0 c1 c2 c3 where so: "sources p0 = [c0, c1, c2, c3]"
    by blast
  from assms st so cal have
    p: "p = p0\<lparr> station_ground_left := Some s0, sat_left := Some s1,
                   sat_central := Some s2, sat_right := Some s3,
                   station_ground_right := Some s4,
                   source_link1 := Some c0, source_link2 := Some c1,
                   source_link3 := Some c2, source_link4 := Some c3,
                   link_stations := Some [(s0, s1), (s1, s2), (s2, s3), (s3, s4)] \<rparr>"
    by (simp add: setup_protocol_def list_all_iff upt_rec eval_nat_numeral)
  show ?thesis
    using cal by (intro that [of s0 s1 s2 s3 s4 c0 c1 c2 c3]) (simp_all add: p st so)
qed

lemma pass_result:
  assumes "(if lr \<noteq> []
      then ebind (eval_loop d c lr p w4) (\<lambda>(p', w5). Inr (True, p', w5))
      else Inr (False, p, w4)) = Inr (again, p', w')"
  shows "again = (lr \<noteq> [])" and "eval_loop d c lr p w4 = Inr (p', w')"
proof -
  show "again = (lr \<noteq> [])"
  proof (cases "lr = []")
    case True
    with assms show ?thesis by simp
  next
    case False
    with assms have "ebind (eval_loop d c lr p w4) (\<lambda>(p', w5). Inr (True, p', w5)) = Inr (again, p', w')"
      by simp
    then show ?thesis using False by (elim ebindE) auto
  qed
  show "eval_loop d c lr p w4 = Inr (p', w')"
  proof (cases "lr = []")
    case True
    with assms show ?thesis by simp
  next
    case False
    with assms have "ebind (eval_loop d c lr p w4) (\<lambda>(p', w5). Inr (True, p', w5)) = Inr (again, p', w')"
      by simp
    then show ?thesis by (elim ebindE) auto
  qed
qed

lemma last_pass_covered:
  assumes pass: "check_pass d c p w = Inr (False, p', w')"
    and ls: "link_stations p = Some [(a0, b0), (a1, b1), (a2, b2), (a3, b3)]"
  obtains gl sc gr qs where
    "station_ground_left p = Some gl" "sat_central p = Some sc"
    "station_ground_right p = Some gr"
    "registered w' ''Pair'' = map PairE qs" "pairs_between qs gl gr = []"
    "swaps_covered (zip (pairs_between qs a0 b0) (pairs_between qs a1 b1)) w'"
    "swaps_covered (zip (pairs_between qs a2 b2) (pairs_between qs a3 b3)) w'"
    "swaps_covered (zip (pairs_between qs gl sc) (pairs_between qs sc gr)) w'"
    "p' = p"
proof -
  from pass ls obtain gl sc gr qs w1 w2 w3 w4 where
    lab: "station_ground_left p = Some gl" "sat_central p = Some sc"
      "station_ground_right p = Some gr"
    and typed: "registered w ''Pair'' = map PairE qs"
    and s1: "replenish (num_memories p)
               (zip [link_used w (a0, b0), link_used w (a1, b1),
                     link_used w (a2, b2), link_used w (a3, b3)] (sources p)) w = Inr w1"
    and s2: "schedule_swaps (zip (pairs_between qs a0 b0) (pairs_between qs a1 b1)) w1 = Inr w2"
    and s3: "schedule_swaps (zip (pairs_between qs a2 b2) (pairs_between qs a3 b3)) w2 = Inr w3"
    and s4: "schedule_swaps (zip (pairs_between qs gl sc) (pairs_between qs sc gr)) w3 = Inr w4"
    by (rule check_pass_Inr)
  note fin = trans [OF check_pass_stages [OF ls lab typed s1 s2 s3 s4, of d c, symmetric] pass]
  from pass_result(1) [OF fin] have none: "pairs_between qs gl gr = []" by simp
  from pass_result(2) [OF fin] none have res: "pairs_between qs gl gr = []" "p' = p" "w' = w4"
    by simp_all
  have o4: "world_objects w4 = world_objects w"
    using replenish_objects [OF s1] schedule_swaps_objects [OF s2]
      schedule_swaps_objects [OF s3] schedule_swaps_objects [OF s4] by simp
  have t4: "registered w4 ''Pair'' = map PairE qs"
    using typed registered_cong [OF o4] by simp
  from schedule_swaps_covers(2) [OF s3] obtain evs3 where e3: "w3 = enqueue evs3 (random_state w2) w2"
    by blast
  from schedule_swaps_covers(2) [OF s4] obtain evs4 where e4: "w4 = enqueue evs4 (random_state w3) w3"
    by blast
  have c1: "swaps_covered (zip (pairs_between qs a0 b0) (pairs_between qs a1 b1)) w4"
    using schedule_swaps_covers(1) [OF s2] by (simp only: e3 e4 covered_enqueue)
  have c2: "swaps_covered (zip (pairs_between qs a2 b2) (pairs_between qs a3 b3)) w4"
    using schedule_swaps_covers(1) [OF s3] by (simp only: e4 covered_enqueue)
  have c3: "swaps_covered (zip (pairs_between qs gl sc) (pairs_between qs sc gr)) w4"
    by (rule schedule_swaps_covers(1) [OF s4])
  from lab t4 res(1) c1 c2 c3 res(2) show ?thesis
    unfolding res(3) [symmetric] by (rule that)
qed

lemma map_PairE_inj: "map PairE xs = map PairE ys \<Longrightarrow> xs = ys"
  by (simp add: inj_on_def map_eq_conv inj_map_eq_map [of PairE])

lemma pass_covered_noop:
  assumes pass: "check_pass d c p w = Inr (again, p', w')"
    and ls: "link_stations p = Some [(a0, b0), (a1, b1), (a2, b2), (a3, b3)]"
    and lab: "station_ground_left p = Some gl" "sat_central p = Some sc"
    and typed: "registered w ''Pair'' = map PairE qs"
    and c1: "swaps_covered (zip (pairs_between qs a0 b0) (pairs_between qs a1 b1)) w"
    and c2: "swaps_covered (zip (pairs_between qs a2 b2) (pairs_between qs a3 b3)) w"
    and c3: "swaps_covered (zip (pairs_between qs gl sc) (pairs_between qs sc gr)) w"
    and gr: "station_ground_right p = Some gr"
  shows "pending_swaps w' = pending_swaps w"
proof -
  from pass ls obtain gl' sc' gr' qs' w1 w2 w3 w4 where
    lab': "station_ground_left p = Some gl'" "sat_central p = Some sc'"
      "station_ground_right p = Some gr'"
    and typed': "registered w ''Pair'' = map PairE qs'"
    and s1: "replenish (num_memories p)
               (zip [link_used w (a0, b0), link_used w (a1, b1),
                     link_used w (a2, b2), link_used w (a3, b3)] (sources p)) w = Inr w1"
    and s2: "schedule_swaps (zip (pairs_between qs' a0 b0) (pairs_between qs' a1 b1)) w1 = Inr w2"
    and s3: "schedule_swaps (zip (pairs_between qs' a2 b2) (pairs_between qs' a3 b3)) w2 = Inr w3"
    and s4: "schedule_swaps (zip (pairs_between qs' gl' sc') (pairs_between qs' sc' gr')) w3 = Inr w4"
    by (rule check_pass_Inr)
  have eq: "gl' = gl" "sc' = sc" "gr' = gr" "qs' = qs"
    using lab gr lab' typed typed' by (simp_all add: map_PairE_inj)
  from replenish_Inr [OF s1] obtain ts r where
    w1: "w1 = enqueue (map (\<lambda>(t, src). SourceEvent t src)
                (zip ts (planned (num_memories p)
                  (zip [link_used w (a0, b0), link_used w (a1, b1),
                     link_used w (a2, b2), link_used w (a3, b3)] (sources p))))) r w"
    by blast
  have w2: "w2 = w1"
    using s2 schedule_swaps_noop [OF covered_enqueue [OF c1]] by (simp add: eq w1)
  have w3: "w3 = w1"
    using s3 schedule_swaps_noop [OF covered_enqueue [OF c2]] by (simp add: eq w1 w2)
  have w4: "w4 = w1"
    using s4 schedule_swaps_noop [OF covered_enqueue [OF c3]] by (simp add: eq w1 w3)
  note fin = trans [OF check_pass_stages [OF ls lab' typed' s1 s2 s3 s4, of d c, symmetric] pass]
  from pass_result(2) [OF fin] have "eval_loop d c (pairs_between qs gl gr) p w4 = Inr (p', w')"
    by (simp add: eq)
  from eval_loop_Inr [OF this lab(2) lab(1) gr] have q: "event_queue w' = event_queue w4"
    by blast
  have "pending_swaps w' = pending_swaps w1"
    by (simp add: pending_swaps_def q w4)
  also have "\<dots> = pending_swaps w"
    unfolding pending_swaps_def w1
    by (simp, rule filter_fold_insert_event_other) auto
  finally show ?thesis .
qed

text \<open>
  C2: a second call of \<open>check\<close> right after a first one, on the world that the first call
  left, leaves the pending swap events as they are.
\<close>

theorem check_twice:
  assumes "setup_protocol p0 = Inr p"
    and "check d c p w = Some (Inr (p1, w1))"
    and "check d c p1 w1 = Some (Inr (p2, w2))"
  shows "pending_swaps w2 = pending_swaps w1"
proof -
  from assms(1) obtain s0 s1 s2 s3 s4 where
    ls: "link_stations p = Some [(s0, s1), (s1, s2), (s2, s3), (s3, s4)]"
    by (rule setup_Inr)
  have "\<exists>pL wL. check_pass d c pL wL = Inr (False, p1, w1) \<and> link_stations pL = link_stations p"
  proof -
    from check_passes [OF assms(2)] show ?thesis
    proof
      assume "check_pass d c p w = Inr (False, p1, w1)"
      then show ?thesis by blast
    next
      assume "\<exists>pA wA. check_pass d c p w = Inr (True, pA, wA) \<and>
        check_pass d c pA wA = Inr (False, p1, w1)"
      then obtain pA wA where a: "check_pass d c p w = Inr (True, pA, wA)"
        and b: "check_pass d c pA wA = Inr (False, p1, w1)"
        by blast
      from check_pass_config [OF a] have "link_stations pA = link_stations p" by auto
      with b show ?thesis by blast
    qed
  qed
  then obtain pL wL where last: "check_pass d c pL wL = Inr (False, p1, w1)"
    and lsL: "link_stations pL = Some [(s0, s1), (s1, s2), (s2, s3), (s3, s4)]"
    using ls by auto
  from last lsL obtain gl sc gr qs where
    lab: "station_ground_left pL = Some gl" "sat_central pL = Some sc"
      "station_ground_right pL = Some gr"
    and typed: "registered w1 ''Pair'' = map PairE qs"
    and none: "pairs_between qs gl gr = []"
    and cov: "swaps_covered (zip (pairs_between qs s0 s1) (pairs_between qs s1 s2)) w1"
      "swaps_covered (zip (pairs_between qs s2 s3) (pairs_between qs s3 s4)) w1"
      "swaps_covered (zip (pairs_between qs gl sc) (pairs_between qs sc gr)) w1"
    and p1: "p1 = pL"
    by (rule last_pass_covered)
  have g: "get_pairs_between_stations w1 gl gr = Inr []"
    by (simp add: get_pairs_typed [OF typed] none)
  from check_stops [OF lab(1) lab(3) g [unfolded p1], folded p1, of d c] assms(3)
  obtain a where pass2: "check_pass d c p1 w1 = Inr (a, p2, w2)"
    by (auto split: sum.splits)
  from pass_covered_noop [OF pass2 lsL [folded p1] lab(1,2) [folded p1] typed cov lab(3) [folded p1]]
  show ?thesis .
qed

lemma setup_chain: "setup_protocol (chain_protocol n) = Inr (ready_protocol n)"
  by (simp add: ready_protocol_def setup_protocol_def chain_protocol_def init_def chain_source_def)

theorem check_twice_witness:
  "\<exists>p1 w1 p2 w2.
     setup_protocol (chain_protocol 2) = Inr (ready_protocol 2) \<and>
     check chain_distance 1 (ready_protocol 2)
       (world_with [chain_pair 7 0 1, chain_pair 8 1 2]) = Some (Inr (p1, w1)) \<and>
     check chain_distance 1 p1 w1 = Some (Inr (p2, w2)) \<and>
     length (pending_swaps w1) = 1 \<and> pending_swaps w2 = pending_swaps w1"
proof -
  let ?w = "world_with [chain_pair 7 0 1, chain_pair 8 1 2]"
  have "case check chain_distance 1 (ready_protocol 2) ?w of
          Some (Inr (p1, w1)) \<Rightarrow>
            (case check chain_distance 1 p1 w1 of
               Some (Inr x) \<Rightarrow> length (pending_swaps w1) = 1
             | _ \<Rightarrow> False)
        | _ \<Rightarrow> False"
    by code_simp
  then obtain p1 w1 where
    a: "check chain_distance 1 (ready_protocol 2) ?w = Some (Inr (p1, w1))"
    and r: "case check chain_distance 1 p1 w1 of
               Some (Inr x) \<Rightarrow> length (pending_swaps w1) = 1
             | _ \<Rightarrow> False"
    by (cases "check chain_distance 1 (ready_protocol 2) ?w")
      (auto split: sum.splits)
  from r obtain p2 w2 where
    b: "check chain_distance 1 p1 w1 = Some (Inr (p2, w2))"
    and l: "length (pending_swaps w1) = 1"
    by (cases "check chain_distance 1 p1 w1") (auto split: sum.splits)
  from check_twice [OF setup_chain a b] a b l setup_chain show ?thesis by blast
qed

section \<open>The capacity of the links\<close>

lemma count_scheduled:
  "length ts = length srcs \<Longrightarrow>
     length (filter (is_scheduled_for a b) (map (\<lambda>(t, s). SourceEvent t s) (zip ts srcs))) =
     length (filter (\<lambda>s. a \<in> set (target_stations s) \<and> b \<in> set (target_stations s)) srcs)"
  by (induction ts srcs rule: list_induct2) auto

lemma swap_not_scheduled: "is_swap e \<Longrightarrow> \<not> is_scheduled_for a b e"
  by (cases e) simp_all

lemma swaps_not_scheduled:
  "\<forall>e \<in> set evs. is_swap e \<Longrightarrow> filter (is_scheduled_for a b) evs = []"
  by (auto simp: filter_empty_conv dest: swap_not_scheduled)

lemma between_same_stations:
  "is_between_stations q a b \<Longrightarrow> is_between_stations q a' b' \<Longrightarrow> a \<noteq> b \<Longrightarrow>
     a' \<in> {a, b} \<and> b' \<in> {a, b}"
  by (auto simp: is_between_stations_def)

lemma pairs_between_filter_other:
  "(\<And>q. is_between_stations q a b \<Longrightarrow> \<not> is_between_stations q a' b') \<Longrightarrow>
     pairs_between (filter (\<lambda>q. \<not> is_between_stations q a' b') qs) a b = pairs_between qs a b"
  by (induction qs) (auto simp: pairs_between_def)

lemma pass_effect:
  assumes pass: "check_pass d c p w = Inr (again, p', w')"
    and ls: "link_stations p = Some [(a0, b0), (a1, b1), (a2, b2), (a3, b3)]"
    and gl: "station_ground_left p = Some gl" and gr: "station_ground_right p = Some gr"
  shows "\<exists>qs.
    registered w ''Pair'' = map PairE qs \<and>
    registered w' ''Pair'' = map PairE (filter (\<lambda>q. \<not> is_between_stations q gl gr) qs) \<and>
    (\<forall>a b. length (get_pairs_scheduled w' a b) =
       length (get_pairs_scheduled w a b) +
       length (filter (\<lambda>s. a \<in> set (target_stations s) \<and> b \<in> set (target_stations s))
                 (planned (num_memories p)
                    (zip [link_used w (a0, b0), link_used w (a1, b1),
                          link_used w (a2, b2), link_used w (a3, b3)] (sources p)))))"
proof -
  from pass ls obtain gl' sc gr' qs w1 w2 w3 w4 where
    lab: "station_ground_left p = Some gl'" "sat_central p = Some sc"
      "station_ground_right p = Some gr'"
    and typed: "registered w ''Pair'' = map PairE qs"
    and s1: "replenish (num_memories p)
               (zip [link_used w (a0, b0), link_used w (a1, b1),
                     link_used w (a2, b2), link_used w (a3, b3)] (sources p)) w = Inr w1"
    and s2: "schedule_swaps (zip (pairs_between qs a0 b0) (pairs_between qs a1 b1)) w1 = Inr w2"
    and s3: "schedule_swaps (zip (pairs_between qs a2 b2) (pairs_between qs a3 b3)) w2 = Inr w3"
    and s4: "schedule_swaps (zip (pairs_between qs gl' sc) (pairs_between qs sc gr')) w3 = Inr w4"
    by (rule check_pass_Inr)
  have eq: "gl' = gl" "gr' = gr" using lab gl gr by simp_all
  define jobs where "jobs = zip [link_used w (a0, b0), link_used w (a1, b1),
                     link_used w (a2, b2), link_used w (a3, b3)] (sources p)"
  define n where "n = num_memories p"
  from replenish_Inr [OF s1] obtain ts r where
    len: "length ts = length (planned n jobs)"
    and w1: "w1 = enqueue (map (\<lambda>(t, src). SourceEvent t src) (zip ts (planned n jobs))) r w"
    unfolding jobs_def n_def by blast
  from schedule_swaps_covers(2) [OF s2] obtain evs2 where
    e2: "w2 = enqueue evs2 (random_state w1) w1" "\<forall>e \<in> set evs2. is_swap e" by blast
  from schedule_swaps_covers(2) [OF s3] obtain evs3 where
    e3: "w3 = enqueue evs3 (random_state w2) w2" "\<forall>e \<in> set evs3. is_swap e" by blast
  from schedule_swaps_covers(2) [OF s4] obtain evs4 where
    e4: "w4 = enqueue evs4 (random_state w3) w3" "\<forall>e \<in> set evs4. is_swap e" by blast
  define srcevs where "srcevs = map (\<lambda>(t, src). SourceEvent t src) (zip ts (planned n jobs))"
  define swaps where "swaps = evs2 @ evs3 @ evs4"
  have sw: "\<forall>e \<in> set swaps. is_swap e"
    using e2(2) e3(2) e4(2) by (auto simp: swaps_def)
  have w4: "w4 = enqueue (srcevs @ swaps) r w"
    by (simp add: e4(1) e3(1) e2(1) w1 srcevs_def swaps_def)
  note fin = trans [OF check_pass_stages [OF ls lab typed s1 s2 s3 s4, of d c, symmetric] pass]
  from pass_result(2) [OF fin]
  have el: "eval_loop d c (pairs_between qs gl gr) p w4 = Inr (p', w')"
    by (simp add: eq)
  from eval_loop_Inr [OF el lab(2) gl gr]
  have q: "event_queue w' = event_queue w4"
    and rP: "registered w' ''Pair'' =
       fold remove1 (map PairE (pairs_between qs gl gr)) (registered w4 ''Pair'')"
    by blast+
  have t': "registered w' ''Pair'' = map PairE (filter (\<lambda>q. \<not> is_between_stations q gl gr) qs)"
    by (simp add: rP w4 typed removed_typed)
  have cnt: "length (get_pairs_scheduled w' a b) =
       length (get_pairs_scheduled w a b) +
       length (filter (\<lambda>s. a \<in> set (target_stations s) \<and> b \<in> set (target_stations s))
                 (planned n jobs))" for a b
  proof -
    have "length (get_pairs_scheduled w' a b) =
        length (filter (is_scheduled_for a b) (fold insert_event (srcevs @ swaps) (queue (event_queue w))))"
      by (simp add: get_pairs_scheduled_def q w4)
    also have "\<dots> = length (get_pairs_scheduled w a b) + length (filter (is_scheduled_for a b) (srcevs @ swaps))"
      by (simp only: length_filter_fold_insert_event get_pairs_scheduled_def)
    also have "filter (is_scheduled_for a b) (srcevs @ swaps) = filter (is_scheduled_for a b) srcevs"
      by (simp add: swaps_not_scheduled [OF sw])
    also have "length (filter (is_scheduled_for a b) srcevs) =
       length (filter (\<lambda>s. a \<in> set (target_stations s) \<and> b \<in> set (target_stations s))
                 (planned n jobs))"
      unfolding srcevs_def by (rule count_scheduled [OF len])
    finally show ?thesis .
  qed
  show ?thesis
    using typed t' cnt [unfolded n_def jobs_def] by blast
qed

lemma max_restore: "int (u + nat (n - int u)) = max (int u) n"
  by simp

lemma pass_link_used:
  assumes pass: "check_pass d c p w = Inr (again, p', w')"
    and ls: "link_stations p = Some [(s0, s1), (s1, s2), (s2, s3), (s3, s4)]"
    and gl: "station_ground_left p = Some s0" and gr: "station_ground_right p = Some s4"
    and dist: "distinct [s0, s1, s2, s3, s4]"
    and src: "sources p = [c0, c1, c2, c3]"
    and tg: "target_stations c0 = [s0, s1]" "target_stations c1 = [s1, s2]"
      "target_stations c2 = [s2, s3]" "target_stations c3 = [s3, s4]"
  shows "int (link_used w' (s0, s1)) = max (int (link_used w (s0, s1))) (num_memories p)"
    and "int (link_used w' (s1, s2)) = max (int (link_used w (s1, s2))) (num_memories p)"
    and "int (link_used w' (s2, s3)) = max (int (link_used w (s2, s3))) (num_memories p)"
    and "int (link_used w' (s3, s4)) = max (int (link_used w (s3, s4))) (num_memories p)"
proof -
  from pass_effect [OF pass ls gl gr] obtain qs where
    typed: "registered w ''Pair'' = map PairE qs"
    and typed': "registered w' ''Pair'' = map PairE (filter (\<lambda>q. \<not> is_between_stations q s0 s4) qs)"
    and cnt: "\<And>a b. length (get_pairs_scheduled w' a b) =
       length (get_pairs_scheduled w a b) +
       length (filter (\<lambda>s. a \<in> set (target_stations s) \<and> b \<in> set (target_stations s))
                 (planned (num_memories p)
                    (zip [link_used w (s0, s1), link_used w (s1, s2),
                          link_used w (s2, s3), link_used w (s3, s4)] (sources p))))"
    by blast
  have keep: "pairs_between (filter (\<lambda>q. \<not> is_between_stations q s0 s4) qs) a b = pairs_between qs a b"
    if "a \<noteq> b" "\<not> (s0 \<in> {a, b} \<and> s4 \<in> {a, b})" for a b
    using that by (intro pairs_between_filter_other) (auto dest: between_same_stations)
  have np: "num_pairs_between w' a b = num_pairs_between w a b"
    if "a \<noteq> b" "\<not> (s0 \<in> {a, b} \<and> s4 \<in> {a, b})" for a b
    by (simp add: num_pairs_typed [OF typed] num_pairs_typed [OF typed'] keep [OF that])
  have pl: "planned (num_memories p)
                    (zip [link_used w (s0, s1), link_used w (s1, s2),
                          link_used w (s2, s3), link_used w (s3, s4)] (sources p)) =
      replicate (nat (num_memories p - int (link_used w (s0, s1)))) c0 @
      replicate (nat (num_memories p - int (link_used w (s1, s2)))) c1 @
      replicate (nat (num_memories p - int (link_used w (s2, s3)))) c2 @
      replicate (nat (num_memories p - int (link_used w (s3, s4)))) c3"
    by (simp add: planned_def src)
  have c0: "length (get_pairs_scheduled w' s0 s1) =
      length (get_pairs_scheduled w s0 s1) + nat (num_memories p - int (link_used w (s0, s1)))"
    using dist by (auto simp: cnt pl tg filter_replicate)
  have n0: "num_pairs_between w' s0 s1 = num_pairs_between w s0 s1"
    using dist by (intro np) auto
  have u0: "link_used w' (s0, s1) =
      link_used w (s0, s1) + nat (num_memories p - int (link_used w (s0, s1)))"
  proof -
    have "link_used w' (s0, s1) =
        num_pairs_between w s0 s1 + length (get_pairs_scheduled w' s0 s1)"
      by (simp add: link_used_def n0)
    also have "\<dots> = num_pairs_between w s0 s1 + length (get_pairs_scheduled w s0 s1) +
        nat (num_memories p - int (link_used w (s0, s1)))"
      by (simp only: c0 add.assoc)
    also have "num_pairs_between w s0 s1 + length (get_pairs_scheduled w s0 s1) =
        link_used w (s0, s1)"
      by (simp add: link_used_def)
    finally show ?thesis .
  qed
  have c1: "length (get_pairs_scheduled w' s1 s2) =
      length (get_pairs_scheduled w s1 s2) + nat (num_memories p - int (link_used w (s1, s2)))"
    using dist by (auto simp: cnt pl tg filter_replicate)
  have n1: "num_pairs_between w' s1 s2 = num_pairs_between w s1 s2"
    using dist by (intro np) auto
  have u1: "link_used w' (s1, s2) =
      link_used w (s1, s2) + nat (num_memories p - int (link_used w (s1, s2)))"
  proof -
    have "link_used w' (s1, s2) =
        num_pairs_between w s1 s2 + length (get_pairs_scheduled w' s1 s2)"
      by (simp add: link_used_def n1)
    also have "\<dots> = num_pairs_between w s1 s2 + length (get_pairs_scheduled w s1 s2) +
        nat (num_memories p - int (link_used w (s1, s2)))"
      by (simp only: c1 add.assoc)
    also have "num_pairs_between w s1 s2 + length (get_pairs_scheduled w s1 s2) =
        link_used w (s1, s2)"
      by (simp add: link_used_def)
    finally show ?thesis .
  qed
  have c2: "length (get_pairs_scheduled w' s2 s3) =
      length (get_pairs_scheduled w s2 s3) + nat (num_memories p - int (link_used w (s2, s3)))"
    using dist by (auto simp: cnt pl tg filter_replicate)
  have n2: "num_pairs_between w' s2 s3 = num_pairs_between w s2 s3"
    using dist by (intro np) auto
  have u2: "link_used w' (s2, s3) =
      link_used w (s2, s3) + nat (num_memories p - int (link_used w (s2, s3)))"
  proof -
    have "link_used w' (s2, s3) =
        num_pairs_between w s2 s3 + length (get_pairs_scheduled w' s2 s3)"
      by (simp add: link_used_def n2)
    also have "\<dots> = num_pairs_between w s2 s3 + length (get_pairs_scheduled w s2 s3) +
        nat (num_memories p - int (link_used w (s2, s3)))"
      by (simp only: c2 add.assoc)
    also have "num_pairs_between w s2 s3 + length (get_pairs_scheduled w s2 s3) =
        link_used w (s2, s3)"
      by (simp add: link_used_def)
    finally show ?thesis .
  qed
  have c3: "length (get_pairs_scheduled w' s3 s4) =
      length (get_pairs_scheduled w s3 s4) + nat (num_memories p - int (link_used w (s3, s4)))"
    using dist by (auto simp: cnt pl tg filter_replicate)
  have n3: "num_pairs_between w' s3 s4 = num_pairs_between w s3 s4"
    using dist by (intro np) auto
  have u3: "link_used w' (s3, s4) =
      link_used w (s3, s4) + nat (num_memories p - int (link_used w (s3, s4)))"
  proof -
    have "link_used w' (s3, s4) =
        num_pairs_between w s3 s4 + length (get_pairs_scheduled w' s3 s4)"
      by (simp add: link_used_def n3)
    also have "\<dots> = num_pairs_between w s3 s4 + length (get_pairs_scheduled w s3 s4) +
        nat (num_memories p - int (link_used w (s3, s4)))"
      by (simp only: c3 add.assoc)
    also have "num_pairs_between w s3 s4 + length (get_pairs_scheduled w s3 s4) =
        link_used w (s3, s4)"
      by (simp add: link_used_def)
    finally show ?thesis .
  qed
  show "int (link_used w' (s0, s1)) = max (int (link_used w (s0, s1))) (num_memories p)"
    by (simp only: u0 max_restore)
  show "int (link_used w' (s1, s2)) = max (int (link_used w (s1, s2))) (num_memories p)"
    by (simp only: u1 max_restore)
  show "int (link_used w' (s2, s3)) = max (int (link_used w (s2, s3))) (num_memories p)"
    by (simp only: u2 max_restore)
  show "int (link_used w' (s3, s4)) = max (int (link_used w (s3, s4))) (num_memories p)"
    by (simp only: u3 max_restore)
qed

lemma check_link_used:
  assumes chk: "check d c p w = Some (Inr (p', w'))"
    and ls: "link_stations p = Some [(s0, s1), (s1, s2), (s2, s3), (s3, s4)]"
    and gl: "station_ground_left p = Some s0" and gr: "station_ground_right p = Some s4"
    and dist: "distinct [s0, s1, s2, s3, s4]"
    and src: "sources p = [c0, c1, c2, c3]"
    and tg: "target_stations c0 = [s0, s1]" "target_stations c1 = [s1, s2]"
      "target_stations c2 = [s2, s3]" "target_stations c3 = [s3, s4]"
  shows "int (link_used w' (s0, s1)) = max (int (link_used w (s0, s1))) (num_memories p)"
    and "int (link_used w' (s1, s2)) = max (int (link_used w (s1, s2))) (num_memories p)"
    and "int (link_used w' (s2, s3)) = max (int (link_used w (s2, s3))) (num_memories p)"
    and "int (link_used w' (s3, s4)) = max (int (link_used w (s3, s4))) (num_memories p)"
proof -
  have "int (link_used w' (s0, s1)) = max (int (link_used w (s0, s1))) (num_memories p) \<and>
    int (link_used w' (s1, s2)) = max (int (link_used w (s1, s2))) (num_memories p) \<and>
    int (link_used w' (s2, s3)) = max (int (link_used w (s2, s3))) (num_memories p) \<and>
    int (link_used w' (s3, s4)) = max (int (link_used w (s3, s4))) (num_memories p)"
    using check_passes [OF chk]
  proof
    assume "check_pass d c p w = Inr (False, p', w')"
    from pass_link_used [OF this ls gl gr dist src tg] show ?thesis by blast
  next
    assume "\<exists>p1 w1. check_pass d c p w = Inr (True, p1, w1) \<and>
        check_pass d c p1 w1 = Inr (False, p', w')"
    then obtain p1 w1 where a: "check_pass d c p w = Inr (True, p1, w1)"
      and b: "check_pass d c p1 w1 = Inr (False, p', w')"
      by blast
    from check_pass_config [OF a] have cfg: "link_stations p1 = link_stations p"
      "station_ground_left p1 = station_ground_left p"
      "station_ground_right p1 = station_ground_right p"
      "sources p1 = sources p" "num_memories p1 = num_memories p"
      by auto
    note A = pass_link_used [OF a ls gl gr dist src tg]
    note B = pass_link_used [OF b ls [folded cfg(1)] gl [folded cfg(2)] gr [folded cfg(3)] dist
        src [folded cfg(4)] tg, unfolded cfg(5)]
    show ?thesis
      by (simp only: A B) simp
  qed
  then show "int (link_used w' (s0, s1)) = max (int (link_used w (s0, s1))) (num_memories p)"
    and "int (link_used w' (s1, s2)) = max (int (link_used w (s1, s2))) (num_memories p)"
    and "int (link_used w' (s2, s3)) = max (int (link_used w (s2, s3))) (num_memories p)"
    and "int (link_used w' (s3, s4)) = max (int (link_used w (s3, s4))) (num_memories p)"
    by blast+
qed

lemma less_4_all: "(\<forall>i<4. P i) \<longleftrightarrow> P 0 \<and> P 1 \<and> P 2 \<and> P (3::nat)"
proof
  assume "\<forall>i<4. P i"
  then show "P 0 \<and> P 1 \<and> P 2 \<and> P 3" by simp
next
  assume a: "P 0 \<and> P 1 \<and> P 2 \<and> P 3"
  show "\<forall>i<4. P i"
  proof (intro allI impI)
    fix i :: nat
    assume "i < 4"
    then have "i = 0 \<or> i = 1 \<or> i = 2 \<or> i = 3" by arith
    with a show "P i" by auto
  qed
qed

lemma less_4: "i < 4 \<Longrightarrow> i = 0 \<or> i = 1 \<or> i = 2 \<or> i = (3::nat)"
  by arith

text \<open>
  C1, as the code has it. In a chain of five different stations whose source \<open>i\<close> targets
  the two stations of link \<open>i\<close>, a call of \<open>check\<close> that returns leaves on every link
  the larger of \<open>num_memories\<close> and what the link used before: pairs between its two
  stations plus pending source events of sources that target both of them. So a link
  below capacity is filled to exactly \<open>num_memories\<close>, a link within capacity stays within
  it, and a link above capacity stays where it was.
\<close>

theorem capacity_restored:
  assumes "setup_protocol p0 = Inr p"
    and "distinct (stations p)"
    and "\<forall>i<4. target_stations (sources p ! i) = [stations p ! i, stations p ! Suc i]"
    and "check d c p w = Some (Inr (p', w'))"
    and "i < 4"
  shows "int (link_used w' (stations p ! i, stations p ! Suc i)) =
           max (int (link_used w (stations p ! i, stations p ! Suc i))) (num_memories p) \<and>
         (int (link_used w (stations p ! i, stations p ! Suc i)) \<le> num_memories p \<longrightarrow>
            int (link_used w' (stations p ! i, stations p ! Suc i)) \<le> num_memories p) \<and>
         (int (link_used w (stations p ! i, stations p ! Suc i)) < num_memories p \<longrightarrow>
            int (link_used w' (stations p ! i, stations p ! Suc i)) = num_memories p)"
proof -
  from assms(1) obtain s0 s1 s2 s3 s4 c0 c1 c2 c3 where
    st: "stations p = [s0, s1, s2, s3, s4]" and so: "sources p = [c0, c1, c2, c3]"
    and ls: "link_stations p = Some [(s0, s1), (s1, s2), (s2, s3), (s3, s4)]"
    and gl: "station_ground_left p = Some s0" and gr: "station_ground_right p = Some s4"
    by (rule setup_Inr)
  from assms(3) have tg: "target_stations c0 = [s0, s1]" "target_stations c1 = [s1, s2]"
      "target_stations c2 = [s2, s3]" "target_stations c3 = [s3, s4]"
    by (simp_all add: st so less_4_all)
  from assms(2) have dist: "distinct [s0, s1, s2, s3, s4]" by (simp add: st)
  note L = check_link_used [OF assms(4) ls gl gr dist so tg]
  have "int (link_used w' (stations p ! i, stations p ! Suc i)) =
           max (int (link_used w (stations p ! i, stations p ! Suc i))) (num_memories p)"
    using less_4 [OF assms(5)] L by (auto simp: st)
  then show ?thesis by simp
qed

theorem capacity_restored_witness:
  "\<exists>p' w'.
     setup_protocol (chain_protocol 2) = Inr (ready_protocol 2) \<and>
     distinct (stations (ready_protocol 2)) \<and>
     check chain_distance 1 (ready_protocol 2) (world_with [chain_pair 7 2 3]) =
       Some (Inr (p', w')) \<and>
     link_used (world_with [chain_pair 7 2 3]) (2, 3) = 1 \<and>
     link_used w' (2, 3) = 2"
proof -
  let ?w = "world_with [chain_pair 7 2 3]"
  have st: "stations (ready_protocol 2) = [0, 1, 2, 3, 4]"
    and so: "sources (ready_protocol 2) =
       [chain_source 0, chain_source 1, chain_source 2, chain_source 3]"
    and n: "num_memories (ready_protocol 2) = 2"
    by (simp_all add: ready_protocol_eq chain_protocol_def init_def)
  have d: "distinct (stations (ready_protocol 2))"
    by (simp add: st)
  have t: "\<forall>i<4. target_stations (sources (ready_protocol 2) ! i) =
        [stations (ready_protocol 2) ! i, stations (ready_protocol 2) ! Suc i]"
    by (simp add: less_4_all st so chain_source_def)
  have "case check chain_distance 1 (ready_protocol 2) ?w of
          Some (Inr x) \<Rightarrow> True | _ \<Rightarrow> False"
    by code_simp
  then obtain p' w' where chk: "check chain_distance 1 (ready_protocol 2) ?w = Some (Inr (p', w'))"
    by (rule check_Inr_cases)
  have u: "link_used ?w (2, 3) = 1"
    by code_simp
  have i: "(2::nat) < 4" by simp
  from capacity_restored [OF setup_chain d t chk i]
  have "link_used w' (2, 3) = 2"
    by (simp add: st n u)
  with setup_chain d chk u show ?thesis by blast
qed

text \<open>
  C1 as the specification states it fails: with \<open>num_memories = 1\<close> and two pairs on the
  first link, the link still holds two pairs after \<open>check\<close>.
\<close>

theorem capacity_exceeded_counterexample:
  "pairs_after chain_distance 1 (ready_protocol 1)
     (world_with [chain_pair 7 0 1, chain_pair 8 1 0]) 0 1 = Some 2 \<and>
   \<not> 2 \<le> num_memories (ready_protocol 1)"
  by code_simp

section \<open>The two scenarios\<close>

lemma schedule_event_ok:
  "has_schedule_event src \<Longrightarrow> 0 \<le> time_distribution src (random_state w) \<Longrightarrow>
     \<exists>w'. schedule_event src w = Inr w'"
  by (simp add: schedule_event_def add_event_eq)

lemma schedule_events_ok:
  "has_schedule_event src \<Longrightarrow> \<forall>k. 0 \<le> time_distribution src k \<Longrightarrow>
     \<exists>w'. schedule_events n src w = Inr w'"
proof (induction n arbitrary: w)
  case 0
  show ?case by simp
next
  case (Suc n)
  from schedule_event_ok [of src w] Suc.prems obtain w1 where "schedule_event src w = Inr w1"
    by blast
  with Suc.IH [OF Suc.prems, of w1] show ?case by auto
qed

lemma replenish_ok:
  "\<forall>(u, s) \<in> set jobs. has_schedule_event s \<and> (\<forall>k. 0 \<le> time_distribution s k) \<Longrightarrow>
     \<exists>w'. replenish n jobs w = Inr w'"
proof (induction jobs arbitrary: w)
  case Nil
  show ?case by simp
next
  case (Cons job jobs)
  obtain u s where job: "job = (u, s)" by (cases job)
  from Cons.prems job have s: "has_schedule_event s" "\<forall>k. 0 \<le> time_distribution s k"
    and rest: "\<forall>(u, s) \<in> set jobs. has_schedule_event s \<and> (\<forall>k. 0 \<le> time_distribution s k)"
    by auto
  show ?case
  proof (cases "int u < n")
    case True
    from schedule_events_ok [OF s, of "nat (n - int u)" w] obtain w1 where
      "schedule_events (nat (n - int u)) s w = Inr w1" by blast
    with Cons.IH [OF rest, of w1] True show ?thesis by (auto simp: job)
  next
    case False
    with Cons.IH [OF rest, of w] show ?thesis by (simp add: job)
  qed
qed

lemma mset_insert_event: "mset (insert_event e xs) = add_mset e (mset xs)"
  by (induction xs) auto

lemma mset_fold_insert_event: "mset (fold insert_event evs q) = mset q + mset evs"
  by (induction evs arbitrary: q) (auto simp: mset_insert_event)

lemma source_events_only:
  "filter is_swap (map (\<lambda>(t, s). SourceEvent t s) zs) = []"
  "filter is_source_event (map (\<lambda>(t, s). SourceEvent t s) zs) = map (\<lambda>(t, s). SourceEvent t s) zs"
  by (induction zs) auto

lemma check_single_pass:
  "check_pass d c p w = Inr (False, p', w') \<Longrightarrow> check d c p w = Some (Inr (p', w'))"
  by (subst check.simps) simp

text \<open>
  C4: after \<open>setup\<close> on five stations and four sources with \<open>num_memories = 2\<close>, one
  call of \<open>check\<close> in a world without pairs and with an empty queue returns; it has
  called \<open>schedule_event\<close> twice on each source, so that eight source events are
  pending, no swap event is pending, and the four logs are empty.
\<close>

theorem first_check:
  assumes "setup_protocol (init 2 sts srcs) = Inr p"
    and "\<forall>s \<in> set srcs. \<forall>k. 0 \<le> time_distribution s k"
    and "registered w ''Pair'' = []"
    and "queue (event_queue w) = []"
  shows "\<exists>p' w' ts r.
     check d c p w = Some (Inr (p', w')) \<and>
     length ts = 8 \<and>
     w' = enqueue (map (\<lambda>(t, s). SourceEvent t s) (zip ts (concat (map (\<lambda>s. [s, s]) srcs)))) r w \<and>
     length (pending_source_events w') = 8 \<and>
     length (queue (event_queue w')) = 8 \<and>
     pending_swaps w' = [] \<and>
     time_list p' = [] \<and> state_list p' = [] \<and>
     resource_cost_max_list p' = [] \<and> resource_cost_add_list p' = []"
proof -
  from assms(1) obtain s0 s1 s2 s3 s4 c0 c1 c2 c3 where
    so: "sources p = [c0, c1, c2, c3]"
    and ls: "link_stations p = Some [(s0, s1), (s1, s2), (s2, s3), (s3, s4)]"
    and lab: "station_ground_left p = Some s0" "sat_central p = Some s2"
      "station_ground_right p = Some s4"
    and cal: "\<forall>s \<in> set (sources p). has_schedule_event s"
    and cfg: "num_memories p = num_memories (init 2 sts srcs)"
      "sources p = sources (init 2 sts srcs)"
      "time_list p = time_list (init 2 sts srcs)"
      "state_list p = state_list (init 2 sts srcs)"
      "resource_cost_max_list p = resource_cost_max_list (init 2 sts srcs)"
      "resource_cost_add_list p = resource_cost_add_list (init 2 sts srcs)"
    by (rule setup_Inr)
  have n: "num_memories p = 2" and srcs: "srcs = [c0, c1, c2, c3]"
    and logs: "time_list p = []" "state_list p = []"
      "resource_cost_max_list p = []" "resource_cost_add_list p = []"
    using cfg so by (simp_all add: init_def)
  have typed: "registered w ''Pair'' = map PairE []"
    using assms(3) by simp
  have lu: "link_used w (a, b) = 0" for a b
    by (simp add: link_used_def num_pairs_typed [OF typed] pairs_between_def
        get_pairs_scheduled_def assms(4))
  define jobs where "jobs = zip [link_used w (s0, s1), link_used w (s1, s2),
                     link_used w (s2, s3), link_used w (s3, s4)] (sources p)"
  have pl: "planned (num_memories p) jobs = concat (map (\<lambda>s. [s, s]) srcs)"
    by (simp add: jobs_def planned_def lu so n srcs eval_nat_numeral)
  have "\<forall>(u, s) \<in> set jobs. has_schedule_event s \<and> (\<forall>k. 0 \<le> time_distribution s k)"
    using cal assms(2) unfolding jobs_def srcs so by (auto dest!: set_zip_rightD)
  from replenish_ok [OF this, of "num_memories p" w] obtain w1 where
    s1: "replenish (num_memories p) jobs w = Inr w1" by blast
  from replenish_Inr [OF s1] obtain ts r where
    len: "length ts = length (planned (num_memories p) jobs)"
    and w1: "w1 = enqueue (map (\<lambda>(t, src). SourceEvent t src)
                (zip ts (planned (num_memories p) jobs))) r w"
    by blast
  have e: "pairs_between [] a b = []" for a b
    by (simp add: pairs_between_def)
  have s: "schedule_swaps (zip (pairs_between [] a b) (pairs_between [] a' b')) w1 = Inr w1"
    for a b a' b'
    by (simp add: e)
  from check_pass_stages [OF ls lab typed s1 [unfolded jobs_def] s s s, of d c]
  have "check_pass d c p w = Inr (False, p, w1)"
    by (simp add: e)
  then have chk: "check d c p w = Some (Inr (p, w1))"
    by (rule check_single_pass)
  have l8: "length ts = 8"
    using len by (simp add: pl srcs)
  have q: "queue (event_queue w1) =
      fold insert_event (map (\<lambda>(t, s). SourceEvent t s) (zip ts (concat (map (\<lambda>s. [s, s]) srcs)))) []"
    by (simp add: w1 pl assms(4))
  have pse: "length (pending_source_events w1) = 8"
    unfolding pending_source_events_def q
    by (simp only: length_filter_fold_insert_event source_events_only) (simp add: l8 srcs)
  have lq: "length (queue (event_queue w1)) = 8"
    using arg_cong [OF mset_fold_insert_event, of size]
    by (simp add: q l8 srcs)
  have ps: "pending_swaps w1 = []"
    unfolding pending_swaps_def q
    by (subst filter_fold_insert_event_other) auto
  show ?thesis
    using chk l8 w1 [unfolded pl] pse lq ps logs by blast
qed

lemma chain_ready:
  "setup_protocol (init 2 [0, 1, 2, 3, 4]
      [chain_source 0, chain_source 1, chain_source 2, chain_source 3]) = Inr (ready_protocol 2)"
  using setup_chain [of 2] by (simp add: chain_protocol_def)

theorem first_check_witness:
  "setup_protocol (init 2 [0, 1, 2, 3, 4]
      [chain_source 0, chain_source 1, chain_source 2, chain_source 3]) = Inr (ready_protocol 2) \<and>
   registered empty_world ''Pair'' = [] \<and>
   queue (event_queue empty_world) = [] \<and>
   (\<exists>p' w' ts r.
     check chain_distance 1 (ready_protocol 2) empty_world = Some (Inr (p', w')) \<and>
     length ts = 8 \<and>
     w' = enqueue (map (\<lambda>(t, s). SourceEvent t s)
            (zip ts (concat (map (\<lambda>s. [s, s])
               [chain_source 0, chain_source 1, chain_source 2, chain_source 3])))) r empty_world \<and>
     length (pending_source_events w') = 8 \<and>
     length (queue (event_queue w')) = 8 \<and>
     pending_swaps w' = [] \<and>
     time_list p' = [] \<and> state_list p' = [] \<and>
     resource_cost_max_list p' = [] \<and> resource_cost_add_list p' = [])"
proof -
  have nn: "\<forall>s \<in> set [chain_source 0, chain_source 1, chain_source 2, chain_source 3].
      \<forall>k. 0 \<le> time_distribution s k"
    by (simp add: chain_source_def)
  have np: "registered empty_world ''Pair'' = []"
    by (simp add: registered_def empty_world_def)
  have eq: "queue (event_queue empty_world) = []"
    by (simp add: empty_world_def)
  from first_check [OF chain_ready nn np eq, of chain_distance 1] chain_ready np eq
  show ?thesis by blast
qed

lemma mset_filter_fold_insert_event:
  "mset (filter P (fold insert_event evs q)) = mset (filter P q) + mset (filter P evs)"
  by (simp add: mset_fold_insert_event)

lemma between_iff:
  "is_between_stations q a b \<Longrightarrow> a \<noteq> b \<Longrightarrow>
     is_between_stations q a' b' \<longleftrightarrow> a' \<in> {a, b} \<and> b' \<in> {a, b}"
  by (auto simp: is_between_stations_def)

lemma schedule_swaps_fresh:
  assumes "\<not> (\<exists>e \<in> set (queue (event_queue w)). references l r e)"
  shows "schedule_swaps [(l, r)] w =
     Inr (enqueue [EntanglementSwappingEvent (current_time (event_queue w)) [l, r]]
            (random_state w) w)"
proof -
  from assms have "find (references l r) (queue (event_queue w)) = None"
    by (simp add: find_None_iff)
  then show ?thesis by (simp add: add_event_eq)
qed

lemma zip_one_empty: "xs = [] \<or> ys = [] \<Longrightarrow> zip xs ys = []"
  by auto

lemma covered_Nil: "swaps_covered [] w"
  by (simp add: swaps_covered_def)

lemma pass_one_swap:
  assumes pass: "check_pass d c p w = Inr (again, p1, w1)"
    and ls: "link_stations p = Some [(s0, s1), (s1, s2), (s2, s3), (s3, s4)]"
    and lab: "station_ground_left p = Some s0" "sat_central p = Some s2"
      "station_ground_right p = Some s4"
    and typed: "registered w ''Pair'' = map PairE qs"
    and pb1: "pairs_between qs s0 s1 = [l]" and pb2: "pairs_between qs s1 s2 = [r]"
    and z2: "pairs_between qs s2 s3 = [] \<or> pairs_between qs s3 s4 = []"
    and z3: "pairs_between qs s0 s2 = [] \<or> pairs_between qs s2 s4 = []"
    and fresh: "\<not> (\<exists>e \<in> set (queue (event_queue w)). references l r e)"
  shows "mset (pending_swaps w1) =
      add_mset (EntanglementSwappingEvent (current_time (event_queue w)) [l, r])
        (mset (pending_swaps w))"
    and "swaps_covered [(l, r)] w1"
    and "registered w1 ''Pair'' = map PairE (filter (\<lambda>q. \<not> is_between_stations q s0 s4) qs)"
proof -
  from pass ls obtain gl' sc' gr' qs' v1 v2 v3 v4 where
    lab': "station_ground_left p = Some gl'" "sat_central p = Some sc'"
      "station_ground_right p = Some gr'"
    and typed': "registered w ''Pair'' = map PairE qs'"
    and t1: "replenish (num_memories p)
               (zip [link_used w (s0, s1), link_used w (s1, s2),
                     link_used w (s2, s3), link_used w (s3, s4)] (sources p)) w = Inr v1"
    and t2: "schedule_swaps (zip (pairs_between qs' s0 s1) (pairs_between qs' s1 s2)) v1 = Inr v2"
    and t3: "schedule_swaps (zip (pairs_between qs' s2 s3) (pairs_between qs' s3 s4)) v2 = Inr v3"
    and t4: "schedule_swaps (zip (pairs_between qs' gl' sc') (pairs_between qs' sc' gr')) v3 = Inr v4"
    by (rule check_pass_Inr)
  have eq: "gl' = s0" "sc' = s2" "gr' = s4" "qs' = qs"
    using lab lab' typed typed' by (simp_all add: map_PairE_inj)
  from replenish_Inr [OF t1] obtain ts rs where
    v1: "v1 = enqueue (map (\<lambda>(t, src). SourceEvent t src)
                (zip ts (planned (num_memories p)
                  (zip [link_used w (s0, s1), link_used w (s1, s2),
                     link_used w (s2, s3), link_used w (s3, s4)] (sources p))))) rs w"
    by blast
  define srcevs where "srcevs = map (\<lambda>(t, src). SourceEvent t src)
                (zip ts (planned (num_memories p)
                  (zip [link_used w (s0, s1), link_used w (s1, s2),
                     link_used w (s2, s3), link_used w (s3, s4)] (sources p))))"
  define swap where "swap = EntanglementSwappingEvent (current_time (event_queue w)) [l, r]"
  have nosrc: "\<forall>e \<in> set srcevs. \<not> references l r e"
    by (auto simp: srcevs_def)
  have fresh1: "\<not> (\<exists>e \<in> set (queue (event_queue v1)). references l r e)"
    using fresh nosrc by (auto simp: v1 srcevs_def [symmetric] set_fold_insert_event)
  have v2: "v2 = enqueue (srcevs @ [swap]) rs w"
    using t2 schedule_swaps_fresh [OF fresh1]
    by (simp add: eq pb1 pb2 v1 srcevs_def swap_def)
  have v3: "v3 = v2"
    using t3 by (simp add: eq zip_one_empty [OF z2])
  have v4: "v4 = v2"
    using t4 by (simp add: eq v3 zip_one_empty [OF z3])
  note fin = trans [OF check_pass_stages [OF ls lab' typed' t1 t2 t3 t4, of d c, symmetric] pass]
  from pass_result(2) [OF fin]
  have el: "eval_loop d c (pairs_between qs s0 s4) p v2 = Inr (p1, w1)"
    by (simp add: eq v4)
  from eval_loop_Inr [OF el lab(2) lab(1) lab(3)]
  have q: "event_queue w1 = event_queue v2"
    and rP: "registered w1 ''Pair'' =
       fold remove1 (map PairE (pairs_between qs s0 s4)) (registered v2 ''Pair'')"
    by blast+
  show "registered w1 ''Pair'' = map PairE (filter (\<lambda>q. \<not> is_between_stations q s0 s4) qs)"
    by (simp add: rP v2 typed removed_typed)
  have fs: "filter is_swap srcevs = []"
    unfolding srcevs_def by (rule source_events_only)
  have "mset (pending_swaps w1) =
      mset (pending_swaps w) + mset (filter is_swap (srcevs @ [swap]))"
    by (simp only: pending_swaps_def q v2 enqueue_sel mset_filter_fold_insert_event)
  then show "mset (pending_swaps w1) =
      add_mset (EntanglementSwappingEvent (current_time (event_queue w)) [l, r])
        (mset (pending_swaps w))"
    by (simp add: fs swap_def)
  have "swap \<in> set (queue (event_queue w1))"
    by (simp add: q v2 set_fold_insert_event set_insert_event)
  moreover have "references l r swap"
    by (simp add: swap_def)
  ultimately show "swaps_covered [(l, r)] w1"
    unfolding swaps_covered_def by auto
qed




section \<open>The method setup\<close>

text \<open>
  C8, as the code has it: a station list that is not of length 5, a source list that is
  not of length 4, or a source without a callable \<open>schedule_event\<close> each make the
  method fail with \<open>AssertionError\<close>; otherwise it returns after labelling the stations
  and sources and building the four pairs of adjacent stations.
\<close>

theorem setup_asserts:
  "setup_protocol p =
     (if length (stations p) \<noteq> 5 \<or> length (sources p) \<noteq> 4 \<or>
         (\<exists>s \<in> set (sources p). \<not> has_schedule_event s)
      then Inl AssertionError
      else Inr (p\<lparr> station_ground_left := Some (stations p ! 0),
                   sat_left := Some (stations p ! 1),
                   sat_central := Some (stations p ! 2),
                   sat_right := Some (stations p ! 3),
                   station_ground_right := Some (stations p ! 4),
                   source_link1 := Some (sources p ! 0),
                   source_link2 := Some (sources p ! 1),
                   source_link3 := Some (sources p ! 2),
                   source_link4 := Some (sources p ! 3),
                   link_stations :=
                     Some [(stations p ! 0, stations p ! 1), (stations p ! 1, stations p ! 2),
                           (stations p ! 2, stations p ! 3), (stations p ! 3, stations p ! 4)] \<rparr>))"
  by (simp add: setup_protocol_def list_all_iff upt_rec eval_nat_numeral)

theorem setup_asserts_witness:
  "link_stations (projr (setup_protocol (chain_protocol 2))) = Some [(0, 1), (1, 2), (2, 3), (3, 4)]
   \<and> setup_protocol ((chain_protocol 2)\<lparr>stations := [0, 1, 2, 3]\<rparr>) = Inl AssertionError"
  using setup_asserts [of "chain_protocol 2"]
    setup_asserts [of "(chain_protocol 2)\<lparr>stations := [0, 1, 2, 3]\<rparr>"]
  by (simp add: chain_protocol_def chain_source_def init_def)

text \<open>
  C8 as the specification states it fails: with four stations, and with a source that has
  no \<open>schedule_event\<close>, the error is neither \<open>TopologyError\<close> nor \<open>InterfaceError\<close>.
\<close>

theorem setup_error_kind_counterexample:
  "setup_protocol (init 2 [0, 1, 2, 3] [chain_source 0, chain_source 1, chain_source 2, chain_source 3])
     \<noteq> Inl TopologyError
   \<and> setup_protocol (init 2 [0, 1, 2, 3, 4]
         [chain_source 0, chain_source 1, chain_source 2,
          (chain_source 3)\<lparr>has_schedule_event := False\<rparr>])
     \<noteq> Inl InterfaceError"
  by (simp add: setup_protocol_def init_def chain_source_def)

section \<open>The method check before setup\<close>

text \<open>
  C9, as the code has it: on a protocol object whose \<open>setup\<close> has never run,
  \<open>check\<close> fails with \<open>AttributeError\<close>, at its first read of \<open>link_stations\<close>.
\<close>

theorem check_before_setup:
  "check distance C (init n sts srcs) w = Some (Inl AttributeError)"
  by (subst check.simps) (simp add: check_pass_def init_def)

text \<open>C9 as the specification states it fails: the error is not \<open>NotInitializedError\<close>.\<close>

theorem check_before_setup_counterexample:
  "check (\<lambda>a b. 1) 1 (chain_protocol 2) empty_world \<noteq> Some (Inl NotInitializedError)"
  by (subst check.simps) (simp add: check_pass_def init_def chain_protocol_def)

section \<open>Looking pairs up\<close>

text \<open>
  C10: in a world whose registry has no entry for the kind \<open>Pair\<close>,
  \<open>_get_pairs_between_stations\<close> returns the empty list and raises nothing.
\<close>

theorem get_pairs_no_entry:
  "world_objects w ''Pair'' = None \<Longrightarrow> get_pairs_between_stations w station1 station2 = Inr []"
  by (simp add: get_pairs_between_stations_def)

theorem get_pairs_no_entry_witness:
  "world_objects empty_world ''Pair'' = None \<and> get_pairs_between_stations empty_world 0 4 = Inr []"
proof -
  have h: "world_objects empty_world ''Pair'' = None"
    by (simp add: empty_world_def)
  show ?thesis using h get_pairs_no_entry [OF h, of 0 4] by simp
qed

end
